theory Spec2Isabelle
  imports Main "HOL-Library.Word"
begin

section \<open>The DMA descriptor-chain example: main.c\<close>

text \<open>
  The program is one function, \<open>main\<close>, over four global 16-byte arrays, the DMA
  controller and the UART. The controller runs beside the processor, so the model passes
  an explicit state that holds the memory, the controller's registers and the bytes
  sent to the console so far. How fast the controller runs against the processor is an
  input: a list that says how many controller steps elapse during each timed operation
  of the processor (a blocking UART call, a wait for the transmitter, one poll of the
  status register).
\<close>

type_synonym u8 = "8 word"
type_synonym u32 = "32 word"

subsection \<open>Macros\<close>

text \<open>\<^verbatim>\<open>#define DMAC_TRANSFER_SIZE 16UL\<close>\<close>

definition DMAC_TRANSFER_SIZE :: u32 where
  "DMAC_TRANSFER_SIZE = 16"

text \<open>
  Modelled from the spec: \<open>CY_RSLT_SUCCESS\<close> is a macro of the driver library. The spec
  only tells success of \<open>cybsp_init\<close> from failure; no property below depends on the
  value taken here.
\<close>

definition CY_RSLT_SUCCESS :: u32 where
  "CY_RSLT_SUCCESS = 0"

subsection \<open>Global variables\<close>

text \<open>The four arrays. An address handed to the controller is the array's name.\<close>

datatype region = g_region1Src | g_region1Dst | g_region2Src | g_region2Dst

type_synonym memory = "region \<Rightarrow> u8 list"

definition byte_of :: "char \<Rightarrow> u8" where
  "byte_of c = of_nat (of_char c)"

text \<open>
  C's rule for an array of \<open>n\<close> elements with a shorter initialiser list: the listed
  elements, then zeros. Elements beyond \<open>n\<close> do not exist.
\<close>

definition array_init :: "nat \<Rightarrow> u8 list \<Rightarrow> u8 list" where
  "array_init n xs = take n (xs @ replicate n 0)"

text \<open>
  A string literal initialises a character array with its characters and then its
  terminating NUL, as far as the array has room.
\<close>

definition string_init :: "nat \<Rightarrow> string \<Rightarrow> u8 list" where
  "string_init n lit = array_init n (map byte_of lit @ [0])"

text \<open>
  \<^verbatim>\<open>const uint8_t g_region1Src[DMAC_TRANSFER_SIZE] = "PSoC4_HVMS-DMADC";\<close>
  \<^verbatim>\<open>uint8_t g_region1Dst[DMAC_TRANSFER_SIZE] = {0UL};\<close>
  and the same for region 2.
\<close>

definition initial_memory :: memory where
  "initial_memory r =
     (case r of
        g_region1Src \<Rightarrow> string_init (unat DMAC_TRANSFER_SIZE) ''PSoC4_HVMS-DMADC''
      | g_region1Dst \<Rightarrow> array_init (unat DMAC_TRANSFER_SIZE) [0]
      | g_region2Src \<Rightarrow> string_init (unat DMAC_TRANSFER_SIZE) ''PSoC4_HVMS-DMADC''
      | g_region2Dst \<Rightarrow> array_init (unat DMAC_TRANSFER_SIZE) [0])"

subsection \<open>The DMA controller\<close>

text \<open>
  Modelled from the spec: the controller itself, the driver functions \<open>Cy_DMAC_*\<close> and
  \<open>Cy_TrigMux_SwTrigger\<close>, and the generated configurations
  \<open>USER_DMA_channel_config\<close>, \<open>USER_DMA_ping_config\<close> and \<open>USER_DMA_pong_config\<close> are not
  part of main.c. The spec describes a channel that owns an ordered chain of two
  descriptors (ping, then pong), each binding a source and a destination region and a
  transfer size and naming the descriptor that runs next; a single trigger starts the
  chain, the descriptors run one after the other, and each has a completion flag that
  reads Pending or Done.
\<close>

datatype cy_en_dmac_descriptor_t = CY_DMAC_DESCRIPTOR_PING | CY_DMAC_DESCRIPTOR_PONG

text \<open>
  Modelled from the spec: what \<open>poll_status\<close> returns. \<open>CY_DMAC_DONE\<close> is the driver's
  name for Done.
\<close>

datatype poll_status = Pending | Done

abbreviation CY_DMAC_DONE :: poll_status where
  "CY_DMAC_DONE \<equiv> Done"

text \<open>
  Modelled from the spec: a descriptor binds a source and a destination region (unset
  until \<open>main\<close> sets them), a transfer size and the descriptor that executes next, and
  carries its completion flag.
\<close>

record descriptor =
  srcAddress :: "region option"
  dstAddress :: "region option"
  dataCount :: nat
  nextDescr :: "cy_en_dmac_descriptor_t option"
  response :: poll_status

text \<open>
  Modelled from the spec: the channel's lifecycle (Idle, Enabled, Transferring, Done).
  While transferring, the channel knows the descriptor it executes and how many bytes
  of it are copied.
\<close>

datatype lifecycle =
  Idle | Enabled | Transferring cy_en_dmac_descriptor_t nat | Completed

text \<open>
  The memory and the controller: the block enable of \<open>Cy_DMAC_Enable\<close>, the channel
  and its two descriptors.
\<close>

record hardware =
  mem :: memory
  block_enabled :: bool
  channel :: lifecycle
  ping :: descriptor
  pong :: descriptor

definition descr :: "cy_en_dmac_descriptor_t \<Rightarrow> hardware \<Rightarrow> descriptor" where
  "descr d h = (case d of CY_DMAC_DESCRIPTOR_PING \<Rightarrow> ping h | CY_DMAC_DESCRIPTOR_PONG \<Rightarrow> pong h)"

definition set_descr :: "cy_en_dmac_descriptor_t \<Rightarrow> descriptor \<Rightarrow> hardware \<Rightarrow> hardware" where
  "set_descr d D h =
     (case d of CY_DMAC_DESCRIPTOR_PING \<Rightarrow> h\<lparr>ping := D\<rparr>
              | CY_DMAC_DESCRIPTOR_PONG \<Rightarrow> h\<lparr>pong := D\<rparr>)"

text \<open>
  Modelled from the spec: the part of a descriptor configuration the spec names, the
  transfer size and the descriptor that executes next.
\<close>

record cy_stc_dmac_descriptor_config_t =
  cfg_dataCount :: nat
  cfg_nextDescr :: "cy_en_dmac_descriptor_t option"

text \<open>
  Modelled from the spec: ping transfers 16 bytes and chains to pong; pong transfers
  16 bytes and ends the chain.
\<close>

definition USER_DMA_ping_config :: cy_stc_dmac_descriptor_config_t where
  "USER_DMA_ping_config =
     \<lparr>cfg_dataCount = 16, cfg_nextDescr = Some CY_DMAC_DESCRIPTOR_PONG\<rparr>"

definition USER_DMA_pong_config :: cy_stc_dmac_descriptor_config_t where
  "USER_DMA_pong_config = \<lparr>cfg_dataCount = 16, cfg_nextDescr = None\<rparr>"

text \<open>
  Modelled from the spec: at start-up nothing is configured, the channel is Idle and
  no descriptor has completed.
\<close>

definition reset_descriptor :: descriptor where
  "reset_descriptor =
     \<lparr>srcAddress = None, dstAddress = None, dataCount = 0, nextDescr = None,
      response = Pending\<rparr>"

definition reset_hardware :: hardware where
  "reset_hardware =
     \<lparr>mem = initial_memory, block_enabled = False, channel = Idle,
      ping = reset_descriptor, pong = reset_descriptor\<rparr>"

text \<open>
  Modelled from the spec: the driver calls that make up \<open>configure\<close> and \<open>enable\<close>.
  They write registers of the controller and no memory region.
\<close>

definition Cy_DMAC_Channel_Init :: "hardware \<Rightarrow> hardware" where
  "Cy_DMAC_Channel_Init h = h\<lparr>channel := Idle\<rparr>"

text \<open>
  Modelled from the spec: initialising a descriptor sets its transfer size and its
  successor from the configuration and clears its completion flag.
\<close>

definition Cy_DMAC_Descriptor_Init ::
  "cy_en_dmac_descriptor_t \<Rightarrow> cy_stc_dmac_descriptor_config_t \<Rightarrow> hardware \<Rightarrow> hardware" where
  "Cy_DMAC_Descriptor_Init d cfg h =
     set_descr d ((descr d h)\<lparr>dataCount := cfg_dataCount cfg,
                               nextDescr := cfg_nextDescr cfg,
                               response := Pending\<rparr>) h"

text \<open>Modelled from the spec: binding the source and the destination region.\<close>

definition Cy_DMAC_Descriptor_SetSrcAddress ::
  "cy_en_dmac_descriptor_t \<Rightarrow> region \<Rightarrow> hardware \<Rightarrow> hardware" where
  "Cy_DMAC_Descriptor_SetSrcAddress d r h = set_descr d ((descr d h)\<lparr>srcAddress := Some r\<rparr>) h"

definition Cy_DMAC_Descriptor_SetDstAddress ::
  "cy_en_dmac_descriptor_t \<Rightarrow> region \<Rightarrow> hardware \<Rightarrow> hardware" where
  "Cy_DMAC_Descriptor_SetDstAddress d r h = set_descr d ((descr d h)\<lparr>dstAddress := Some r\<rparr>) h"

text \<open>
  Modelled from the spec: \<open>enable\<close> arms the channel. \<open>main\<close> also enables the
  controller block, which the trigger needs as well.
\<close>

definition Cy_DMAC_Channel_Enable :: "hardware \<Rightarrow> hardware" where
  "Cy_DMAC_Channel_Enable h = h\<lparr>channel := Enabled\<rparr>"

definition Cy_DMAC_Enable :: "hardware \<Rightarrow> hardware" where
  "Cy_DMAC_Enable h = h\<lparr>block_enabled := True\<rparr>"

text \<open>
  Modelled from the spec: the trigger starts the chain at ping when the channel is
  armed; otherwise it is lost.
\<close>

definition Cy_TrigMux_SwTrigger :: "hardware \<Rightarrow> hardware" where
  "Cy_TrigMux_SwTrigger h =
     (if channel h = Enabled \<and> block_enabled h
      then h\<lparr>channel := Transferring CY_DMAC_DESCRIPTOR_PING 0\<rparr> else h)"

text \<open>Modelled from the spec: \<open>poll_status\<close> reads one descriptor's completion flag.\<close>

definition Cy_DMAC_Descriptor_GetResponse ::
  "cy_en_dmac_descriptor_t \<Rightarrow> hardware \<Rightarrow> poll_status" where
  "Cy_DMAC_Descriptor_GetResponse d h = response (descr d h)"

text \<open>
  Modelled from the spec: one step of the single copy unit. It copies the next byte
  of the current descriptor; when the descriptor's count is reached it sets the
  descriptor's completion flag and moves to the descriptor chained to it, or ends the
  chain. A descriptor without addresses, or with a region shorter than its count,
  stalls the channel.
\<close>

definition dma_step :: "hardware \<Rightarrow> hardware" where
  "dma_step h =
     (case channel h of
        Transferring d k \<Rightarrow>
          (let D = descr d h in
           if k < dataCount D then
             (case (srcAddress D, dstAddress D) of
                (Some s, Some t) \<Rightarrow>
                  if k < length (mem h s) \<and> k < length (mem h t)
                  then h\<lparr>mem := (mem h)(t := (mem h t)[k := mem h s ! k]),
                         channel := Transferring d (Suc k)\<rparr>
                  else h
              | _ \<Rightarrow> h)
           else set_descr d (D\<lparr>response := Done\<rparr>)
                  (h\<lparr>channel := (case nextDescr D of
                                    Some d' \<Rightarrow> Transferring d' 0
                                  | None \<Rightarrow> Completed)\<rparr>))
      | _ \<Rightarrow> h)"

text \<open>The controller after \<open>n\<close> steps.\<close>

primrec elapse :: "nat \<Rightarrow> hardware \<Rightarrow> hardware" where
  "elapse 0 h = h"
| "elapse (Suc n) h = elapse n (dma_step h)"

subsection \<open>The processor's state\<close>

text \<open>The four local arrays of \<open>main\<close>: \<^verbatim>\<open>char srcdata1[16]\<close> and so on.\<close>

datatype local_array = srcdata1 | dstdata1 | srcdata2 | dstdata2

record state =
  hw :: hardware
  uart :: "u8 list"
  sched :: "nat list"
  locals :: "local_array \<Rightarrow> u8 list"

text \<open>
  A timed operation: the controller makes as many steps as the schedule says for this
  operation. When the schedule is used up the controller makes no further step.
\<close>

definition tick :: "state \<Rightarrow> state" where
  "tick s = s\<lparr>hw := elapse (case sched s of [] \<Rightarrow> 0 | n # _ \<Rightarrow> n) (hw s),
              sched := tl (sched s)\<rparr>"

text \<open>
  The local arrays are not initialised in C. Every element is written before it is
  read (each loop body stores to index \<open>i\<close> and then loads index \<open>i\<close>), so the
  model starts them at zero.
\<close>

definition reset_state :: "nat list \<Rightarrow> state" where
  "reset_state env =
     \<lparr>hw = reset_hardware, uart = [], sched = env, locals = (\<lambda>_. replicate 16 0)\<rparr>"

subsection \<open>The UART\<close>

text \<open>
  Modelled from the spec: the UART driver is not part of main.c. The console takes
  bytes in order; \<open>Cy_SCB_UART_PutString\<close> blocks until the whole string is queued,
  which takes time.
\<close>

definition Cy_SCB_UART_PutString :: "string \<Rightarrow> state \<Rightarrow> state" where
  "Cy_SCB_UART_PutString str s = (let s' = tick s in s'\<lparr>uart := uart s' @ map byte_of str\<rparr>)"

text \<open>
  Modelled from the spec: \<open>Cy_SCB_UART_Put\<close> queues one byte. \<open>main\<close> calls it after
  the wait for \<open>Cy_SCB_UART_IsTxComplete\<close>, when the transmitter has room.
\<close>

definition Cy_SCB_UART_Put :: "u8 \<Rightarrow> state \<Rightarrow> state" where
  "Cy_SCB_UART_Put c s = s\<lparr>uart := uart s @ [c]\<rparr>"

text \<open>
  The string literals of \<open>main\<close>: \<^verbatim>\<open>"\x1b[2J\x1b[;H"\<close>, \<^verbatim>\<open>"\r\n"\<close> and the row of
  60 asterisks.
\<close>

definition CLEAR_SCREEN :: string where
  "CLEAR_SCREEN = [CHR 0x1B, CHR ''['', CHR ''2'', CHR ''J'', CHR 0x1B, CHR ''['', CHR '';'', CHR ''H'']"

definition CRLF :: string where
  "CRLF = [CHR 0x0D, CHR 0x0A]"

definition STARS :: string where
  "STARS = ''************************************************************''"

subsection \<open>The loops of main\<close>

text \<open>
  \<^verbatim>\<open>for(uint8_t i=0; i<DMAC_TRANSFER_SIZE; i++)\<close>: the index is 8 bits wide and is
  converted to the 32-bit type of the bound for the comparison.
\<close>

function for_up :: "(u8 \<Rightarrow> 's \<Rightarrow> 's) \<Rightarrow> u8 \<Rightarrow> 's \<Rightarrow> 's" where
  "for_up body i s =
     (if (ucast i :: u32) < DMAC_TRANSFER_SIZE then for_up body (i + 1) (body i s) else s)"
  by pat_completeness auto
termination
proof (relation "measure (\<lambda>(body, i, s). 16 - unat i)")
  show "wf (measure (\<lambda>(body :: u8 \<Rightarrow> 's \<Rightarrow> 's, i :: u8, s :: 's). 16 - unat i))"
    by simp
next
  fix body :: "u8 \<Rightarrow> 's \<Rightarrow> 's" and i :: u8 and s :: 's
  assume "(ucast i :: u32) < DMAC_TRANSFER_SIZE"
  moreover have "unat (ucast i :: u32) = unat i"
    by transfer (simp add: take_bit_take_bit)
  ultimately have "unat i < 16"
    by (simp add: DMAC_TRANSFER_SIZE_def word_less_nat_alt)
  then have "unat (i + 1) = unat i + 1"
    by (simp add: unat_word_ariths)
  with \<open>unat i < 16\<close>
  show "((body, i + 1, body i s), (body, i, s)) \<in> measure (\<lambda>(body, i, s). 16 - unat i)"
    by simp
qed

text \<open>
  \<^verbatim>\<open>for(uint32_t i=15; i<DMAC_TRANSFER_SIZE; i--)\<close>: the index is unsigned, so
  the decrement at 0 wraps around.
\<close>

function for_down :: "(u32 \<Rightarrow> 's \<Rightarrow> 's) \<Rightarrow> u32 \<Rightarrow> 's \<Rightarrow> 's" where
  "for_down body i s =
     (if i < DMAC_TRANSFER_SIZE then for_down body (i - 1) (body i s) else s)"
  by pat_completeness auto
termination
proof (relation "measure (\<lambda>(body, i, s). unat (i + 1))")
  show "wf (measure (\<lambda>(body :: u32 \<Rightarrow> 's \<Rightarrow> 's, i :: u32, s :: 's). unat (i + 1)))"
    by simp
next
  fix body :: "u32 \<Rightarrow> 's \<Rightarrow> 's" and i :: u32 and s :: 's
  assume "i < DMAC_TRANSFER_SIZE"
  then have "unat i < 16"
    by (simp add: DMAC_TRANSFER_SIZE_def word_less_nat_alt)
  then have "unat (i + 1) = unat i + 1"
    by (simp add: unat_word_ariths)
  then show "((body, i - 1, body i s), (body, i, s)) \<in> measure (\<lambda>(body, i, s). unat (i + 1))"
    by simp
qed

declare for_up.simps [simp del] for_down.simps [simp del]

text \<open>
  The body of each print loop, for the region \<open>r\<close> and the local array \<open>l\<close>:
  \<^verbatim>\<open>l[i] = r[i]; while (!Cy_SCB_UART_IsTxComplete(UART_HW)); Cy_SCB_UART_Put(UART_HW, l[i]);\<close>
\<close>

definition read_and_put :: "region \<Rightarrow> local_array \<Rightarrow> nat \<Rightarrow> state \<Rightarrow> state" where
  "read_and_put r l i s =
     (let s1 = s\<lparr>locals := (locals s)(l := (locals s l)[i := mem (hw s) r ! i])\<rparr>;
          s2 = tick s1
      in Cy_SCB_UART_Put (locals s2 l ! i) s2)"

definition print_ping_src :: "state \<Rightarrow> state" where
  "print_ping_src s = for_up (\<lambda>i. read_and_put g_region1Src srcdata1 (unat i)) 0 s"

definition print_ping_dst :: "state \<Rightarrow> state" where
  "print_ping_dst s = for_up (\<lambda>i. read_and_put g_region1Dst dstdata1 (unat i)) 0 s"

definition print_pong_src :: "state \<Rightarrow> state" where
  "print_pong_src s = for_down (\<lambda>i. read_and_put g_region2Src srcdata2 (unat i)) 15 s"

definition print_pong_dst :: "state \<Rightarrow> state" where
  "print_pong_dst s = for_down (\<lambda>i. read_and_put g_region2Dst dstdata2 (unat i)) 15 s"

subsection \<open>main\<close>

text \<open>
  Lines 108 to 137: the configuration of the channel and the banner. Enabling the
  interrupts (line 109) and setting up the UART (lines 131 and 132) change nothing the
  model holds.
\<close>

definition on_hw :: "(hardware \<Rightarrow> hardware) \<Rightarrow> state \<Rightarrow> state" where
  "on_hw f s = s\<lparr>hw := f (hw s)\<rparr>"

definition configure :: "state \<Rightarrow> state" where
  "configure s =
     (let s = on_hw Cy_DMAC_Channel_Init s;
          s = on_hw (Cy_DMAC_Descriptor_Init CY_DMAC_DESCRIPTOR_PING USER_DMA_ping_config) s;
          s = on_hw (Cy_DMAC_Descriptor_SetSrcAddress CY_DMAC_DESCRIPTOR_PING g_region1Src) s;
          s = on_hw (Cy_DMAC_Descriptor_SetDstAddress CY_DMAC_DESCRIPTOR_PING g_region1Dst) s;
          s = on_hw (Cy_DMAC_Descriptor_Init CY_DMAC_DESCRIPTOR_PONG USER_DMA_pong_config) s;
          s = on_hw (Cy_DMAC_Descriptor_SetSrcAddress CY_DMAC_DESCRIPTOR_PONG g_region2Src) s;
          s = on_hw (Cy_DMAC_Descriptor_SetDstAddress CY_DMAC_DESCRIPTOR_PONG g_region2Dst) s;
          s = on_hw Cy_DMAC_Channel_Enable s
      in on_hw Cy_DMAC_Enable s)"

definition banner :: "state \<Rightarrow> state" where
  "banner s =
     (let s = Cy_SCB_UART_PutString CLEAR_SCREEN s;
          s = Cy_SCB_UART_PutString (STARS @ CRLF) s;
          s = Cy_SCB_UART_PutString (''DMA Data Transfer with Descriptor Chain '' @ CRLF) s
      in Cy_SCB_UART_PutString (STARS @ CRLF @ [CHR 0x0A]) s)"

text \<open>
  Line 147:
  \<^verbatim>\<open>while (CY_DMAC_DONE == Cy_DMAC_Descriptor_GetResponse(..., CY_DMAC_DESCRIPTOR_PONG));\<close>
  The loop has no bound. The fuel is the number of reads the model follows: \<open>Inl\<close> is
  a loop that still spins when the fuel is used up, \<open>Inr\<close> a loop that has exited.
\<close>

fun wait_transfer :: "nat \<Rightarrow> state \<Rightarrow> state + state" where
  "wait_transfer 0 s = Inl s"
| "wait_transfer (Suc fuel) s =
     (let s' = tick s in
      if CY_DMAC_DONE = Cy_DMAC_Descriptor_GetResponse CY_DMAC_DESCRIPTOR_PONG (hw s')
      then wait_transfer fuel s' else Inr s')"

text \<open>Lines 150 to 193: the report.\<close>

definition report :: "state \<Rightarrow> state" where
  "report s =
     (let s = Cy_SCB_UART_PutString ''PING source = '' s;
          s = print_ping_src s;
          s = Cy_SCB_UART_PutString CRLF s;
          s = Cy_SCB_UART_PutString ''PING destination = '' s;
          s = print_ping_dst s;
          s = Cy_SCB_UART_PutString CRLF s;
          s = Cy_SCB_UART_PutString ''PONG source = '' s;
          s = print_pong_src s;
          s = Cy_SCB_UART_PutString CRLF s;
          s = Cy_SCB_UART_PutString ''PONG destination = '' s;
          s = print_pong_dst s;
          s = Cy_SCB_UART_PutString CRLF s
      in Cy_SCB_UART_PutString (''- DMA transfer is completed. '' @ CRLF) s)"

text \<open>
  \<open>main\<close> never returns. It ends halted in the assertion, spinning in the wait loop
  (as far as the fuel follows it), or in the idle loop \<^verbatim>\<open>for(;;)\<close> at its end.
\<close>

datatype outcome = AssertHalt state | StillPolling state | IdleLoop state

text \<open>
  Modelled from the spec: \<open>CY_ASSERT\<close> is a macro of the driver library, not part of
  main.c. The spec calls it a hard assertion: a false condition halts the program on
  the spot, a true one lets it continue.
\<close>

definition CY_ASSERT :: "bool \<Rightarrow> state \<Rightarrow> outcome option" where
  "CY_ASSERT c s = (if c then None else Some (AssertHalt s))"

text \<open>Lines 108 to 198: \<open>main\<close> from the configuration on.\<close>

definition after_init :: "nat \<Rightarrow> state \<Rightarrow> outcome" where
  "after_init fuel s =
     (case wait_transfer fuel (on_hw Cy_TrigMux_SwTrigger (banner (configure s))) of
        Inl s' \<Rightarrow> StillPolling s'
      | Inr s' \<Rightarrow> IdleLoop (report s'))"

text \<open>
  \<open>main\<close>, for the value \<open>result\<close> that \<open>cybsp_init\<close> returns, the schedule \<open>env\<close>
  of the controller and the fuel of the wait loop. Lines 102 to 106:
  \<^verbatim>\<open>if (result != CY_RSLT_SUCCESS) { CY_ASSERT(0); }\<close>
\<close>

definition main :: "nat \<Rightarrow> u32 \<Rightarrow> nat list \<Rightarrow> outcome" where
  "main fuel result env =
     (let s = reset_state env in
      if result \<noteq> CY_RSLT_SUCCESS
      then (case CY_ASSERT False s of Some halted \<Rightarrow> halted | None \<Rightarrow> after_init fuel s)
      else after_init fuel s)"

fun final_state :: "outcome \<Rightarrow> state" where
  "final_state (AssertHalt s) = s"
| "final_state (StillPolling s) = s"
| "final_state (IdleLoop s) = s"

section \<open>Invariants and derived notions\<close>

subsection \<open>The controller\<close>

text \<open>The descriptors as \<open>main\<close> configures them.\<close>

definition configured :: "hardware \<Rightarrow> bool" where
  "configured h \<longleftrightarrow>
     srcAddress (ping h) = Some g_region1Src \<and> dstAddress (ping h) = Some g_region1Dst \<and>
     dataCount (ping h) = 16 \<and> nextDescr (ping h) = Some CY_DMAC_DESCRIPTOR_PONG \<and>
     srcAddress (pong h) = Some g_region2Src \<and> dstAddress (pong h) = Some g_region2Dst \<and>
     dataCount (pong h) = 16 \<and> nextDescr (pong h) = None"

text \<open>Every region holds 16 bytes.\<close>

definition sized :: "hardware \<Rightarrow> bool" where
  "sized h \<longleftrightarrow> length (mem h g_region1Src) = 16 \<and> length (mem h g_region1Dst) = 16 \<and>
     length (mem h g_region2Src) = 16 \<and> length (mem h g_region2Dst) = 16"

text \<open>
  What the chain has done so far, by the channel's lifecycle: which completion flags
  are set and which part of each destination already equals its source.
\<close>

fun progress_ok :: "lifecycle \<Rightarrow> hardware \<Rightarrow> bool" where
  "progress_ok (Transferring CY_DMAC_DESCRIPTOR_PING k) h \<longleftrightarrow>
     k \<le> 16 \<and> response (ping h) = Pending \<and> response (pong h) = Pending \<and>
     take k (mem h g_region1Dst) = take k (mem h g_region1Src)"
| "progress_ok (Transferring CY_DMAC_DESCRIPTOR_PONG k) h \<longleftrightarrow>
     k \<le> 16 \<and> response (ping h) = Done \<and> response (pong h) = Pending \<and>
     mem h g_region1Dst = mem h g_region1Src \<and>
     take k (mem h g_region2Dst) = take k (mem h g_region2Src)"
| "progress_ok Completed h \<longleftrightarrow>
     response (ping h) = Done \<and> response (pong h) = Done \<and>
     mem h g_region1Dst = mem h g_region1Src \<and> mem h g_region2Dst = mem h g_region2Src"
| "progress_ok Idle h \<longleftrightarrow> response (ping h) = Pending \<and> response (pong h) = Pending"
| "progress_ok Enabled h \<longleftrightarrow> response (ping h) = Pending \<and> response (pong h) = Pending"

definition chain_inv :: "hardware \<Rightarrow> bool" where
  "chain_inv h \<longleftrightarrow> configured h \<and> sized h \<and> progress_ok (channel h) h"

text \<open>The channel is not executing a descriptor, so the controller writes nothing.\<close>

definition quiescent :: "hardware \<Rightarrow> bool" where
  "quiescent h = (case channel h of Transferring d k \<Rightarrow> False | _ \<Rightarrow> True)"

text \<open>The controller as \<open>main\<close> leaves it before the trigger.\<close>

definition armed_hardware :: hardware where
  "armed_hardware =
     \<lparr>mem = initial_memory, block_enabled = True, channel = Enabled,
      ping = \<lparr>srcAddress = Some g_region1Src, dstAddress = Some g_region1Dst, dataCount = 16,
              nextDescr = Some CY_DMAC_DESCRIPTOR_PONG, response = Pending\<rparr>,
      pong = \<lparr>srcAddress = Some g_region2Src, dstAddress = Some g_region2Dst, dataCount = 16,
              nextDescr = None, response = Pending\<rparr>\<rparr>"

text \<open>
  The state in which \<open>main\<close> enters its wait loop, just after the trigger, and the
  controller \<open>n\<close> steps later.
\<close>

definition triggered_state :: "nat list \<Rightarrow> state" where
  "triggered_state env = on_hw Cy_TrigMux_SwTrigger (banner (configure (reset_state env)))"

definition transfer_after :: "nat list \<Rightarrow> nat \<Rightarrow> hardware" where
  "transfer_after env n = elapse n (hw (triggered_state env))"

text \<open>
  The controller and the memory when the processor has finished \<open>k\<close> timed operations
  since the trigger: the schedule's entries for the four strings of the banner are
  used up before the trigger, and the next \<open>k\<close> entries give the steps made since.
\<close>

definition transfer_at :: "nat list \<Rightarrow> nat \<Rightarrow> hardware" where
  "transfer_at env k = transfer_after env (sum_list (take k (drop 4 env)))"

text \<open>
  What a region holds at each of the first \<open>n\<close> steps of a controller, the state it
  starts in included.
\<close>

primrec contents_over :: "nat \<Rightarrow> hardware \<Rightarrow> region \<Rightarrow> u8 list list" where
  "contents_over 0 h r = [mem h r]"
| "contents_over (Suc n) h r = mem h r # contents_over n (dma_step h) r"

text \<open>What can be read off the controller and the memory at one moment.\<close>

definition snapshot ::
  "hardware \<Rightarrow> lifecycle \<times> poll_status \<times> poll_status \<times> u8 list \<times> u8 list \<times> u8 list \<times> u8 list" where
  "snapshot h =
     (channel h, response (ping h), response (pong h),
      mem h g_region1Src, mem h g_region1Dst, mem h g_region2Src, mem h g_region2Dst)"

subsection \<open>The processor\<close>

text \<open>
  The states of \<open>main\<close> from the trigger on: the descriptors are configured, the
  sources hold their initial contents and every array has its 16 elements.
\<close>

definition ready :: "state \<Rightarrow> bool" where
  "ready s \<longleftrightarrow> configured (hw s) \<and> sized (hw s) \<and>
     mem (hw s) g_region1Src = initial_memory g_region1Src \<and>
     mem (hw s) g_region2Src = initial_memory g_region2Src \<and>
     length (locals s srcdata1) = 16 \<and> length (locals s dstdata1) = 16 \<and>
     length (locals s srcdata2) = 16 \<and> length (locals s dstdata2) = 16"

text \<open>
  A state of \<open>main\<close> that has finished \<open>j\<close> timed operations since the trigger.
\<close>

definition clocked :: "nat list \<Rightarrow> nat \<Rightarrow> state \<Rightarrow> bool" where
  "clocked env j s \<longleftrightarrow> hw s = transfer_at env j \<and> sched s = drop j (drop 4 env)"

text \<open>
  The bytes the two destination loops read. Since the trigger the processor has
  finished one poll, the label and the 16 bytes of the PING source block, the CR LF
  and the next label, 20 timed operations in all, when the PING destination loop reads
  index 0; each iteration is one more. The PONG destination loop starts after 56 and
  reads index 15 first.
\<close>

definition ping_destination_read :: "nat list \<Rightarrow> u8 list" where
  "ping_destination_read env =
     map (\<lambda>i. mem (transfer_at env (20 + i)) g_region1Dst ! i) [0..<16]"

definition pong_destination_read :: "nat list \<Rightarrow> u8 list" where
  "pong_destination_read env =
     map (\<lambda>k. mem (transfer_at env (56 + k)) g_region2Dst ! (15 - k)) [0..<16]"

subsection \<open>The console\<close>

text \<open>The bytes of the banner block, lines 134 to 137.\<close>

definition BANNER_BLOCK :: string where
  "BANNER_BLOCK = STARS @ CRLF @ ''DMA Data Transfer with Descriptor Chain '' @ CRLF @
                  STARS @ CRLF @ [CHR 0x0A]"

definition BANNER :: string where
  "BANNER = CLEAR_SCREEN @ BANNER_BLOCK"

text \<open>
  The last line of a byte stream: the line terminators at the end are dropped, and
  the line is what precedes them back to the previous terminator.
\<close>

definition final_line :: "u8 list \<Rightarrow> u8 list" where
  "final_line out =
     rev (takeWhile (\<lambda>c. c \<noteq> 0x0A \<and> c \<noteq> 0x0D)
            (dropWhile (\<lambda>c. c = 0x0A \<or> c = 0x0D) (rev out)))"

section \<open>Properties of the model\<close>

lemma dma_step_quiescent: "quiescent h \<Longrightarrow> dma_step h = h"
  by (simp add: quiescent_def dma_step_def split: lifecycle.splits)

lemma elapse_quiescent: "quiescent h \<Longrightarrow> elapse n h = h"
  by (induction n) (simp_all add: dma_step_quiescent)

lemma length_mem_dma_step: "length (mem (dma_step h) r) = length (mem h r)"
  by (simp add: dma_step_def set_descr_def Let_def
      split: lifecycle.splits option.splits cy_en_dmac_descriptor_t.splits)

lemma configured_dma_step: "configured h \<Longrightarrow> configured (dma_step h)"
  by (auto simp: configured_def dma_step_def descr_def set_descr_def Let_def
      split: lifecycle.splits cy_en_dmac_descriptor_t.splits option.splits)

lemma sized_dma_step: "sized h \<Longrightarrow> sized (dma_step h)"
  by (simp add: sized_def length_mem_dma_step)

lemma src_dma_step:
  "configured h \<Longrightarrow> mem (dma_step h) g_region1Src = mem h g_region1Src \<and>
     mem (dma_step h) g_region2Src = mem h g_region2Src"
  by (auto simp: configured_def dma_step_def descr_def set_descr_def Let_def
      split: lifecycle.splits cy_en_dmac_descriptor_t.splits option.splits)

lemma take_Suc_update:
  assumes "k < length xs" "k < length ys" "take k xs = take k ys"
  shows "take (Suc k) (xs[k := ys ! k]) = take (Suc k) ys"
  using assms by (simp add: take_Suc_conv_app_nth)

lemma chain_inv_dma_step: "chain_inv h \<Longrightarrow> chain_inv (dma_step h)"
proof -
  assume inv: "chain_inv h"
  then have c: "configured h" and z: "sized h" and p: "progress_ok (channel h) h"
    by (simp_all add: chain_inv_def)
  have c': "configured (dma_step h)" and z': "sized (dma_step h)"
    using c z by (simp_all add: configured_dma_step sized_dma_step)
  have "progress_ok (channel (dma_step h)) (dma_step h)"
  proof (cases "channel h")
    case (Transferring d k)
    show ?thesis
    proof (cases d)
      case CY_DMAC_DESCRIPTOR_PING
      show ?thesis
      proof (cases "k < 16")
        case True
        with p c z Transferring CY_DMAC_DESCRIPTOR_PING show ?thesis
          by (simp add: dma_step_def descr_def configured_def sized_def take_Suc_update)
      next
        case False
        with p Transferring CY_DMAC_DESCRIPTOR_PING have k: "k = 16" by simp
        with p z Transferring CY_DMAC_DESCRIPTOR_PING
        have "mem h g_region1Dst = mem h g_region1Src"
          by (simp add: sized_def)
        with p c k Transferring CY_DMAC_DESCRIPTOR_PING show ?thesis
          by (simp add: dma_step_def descr_def set_descr_def configured_def)
      qed
    next
      case CY_DMAC_DESCRIPTOR_PONG
      show ?thesis
      proof (cases "k < 16")
        case True
        with p c z Transferring CY_DMAC_DESCRIPTOR_PONG show ?thesis
          by (simp add: dma_step_def descr_def configured_def sized_def take_Suc_update)
      next
        case False
        with p Transferring CY_DMAC_DESCRIPTOR_PONG have k: "k = 16" by simp
        with p z Transferring CY_DMAC_DESCRIPTOR_PONG
        have "mem h g_region2Dst = mem h g_region2Src"
          by (simp add: sized_def)
        with p c k Transferring CY_DMAC_DESCRIPTOR_PONG show ?thesis
          by (simp add: dma_step_def descr_def set_descr_def configured_def)
      qed
    qed
  qed (use p in \<open>simp_all add: dma_step_def\<close>)
  with c' z' show ?thesis by (simp add: chain_inv_def)
qed

lemma chain_inv_elapse: "chain_inv h \<Longrightarrow> chain_inv (elapse n h)"
  by (induction n arbitrary: h) (simp_all add: chain_inv_dma_step)


lemma elapse_add: "elapse (a + b) h = elapse b (elapse a h)"
  by (induction a arbitrary: h) simp_all

lemma configured_elapse: "configured h \<Longrightarrow> configured (elapse n h)"
  by (induction n arbitrary: h) (simp_all add: configured_dma_step)

lemma sized_elapse: "sized h \<Longrightarrow> sized (elapse n h)"
  by (induction n arbitrary: h) (simp_all add: sized_dma_step)

lemma src_elapse:
  "configured h \<Longrightarrow> mem (elapse n h) g_region1Src = mem h g_region1Src \<and>
     mem (elapse n h) g_region2Src = mem h g_region2Src"
  by (induction n arbitrary: h) (simp_all add: src_dma_step configured_dma_step)

lemma tick_fields [simp]:
  "uart (tick s) = uart s" "locals (tick s) = locals s" "sched (tick s) = tl (sched s)"
  by (simp_all add: tick_def)

lemma hw_tick: "\<exists>n. hw (tick s) = elapse n (hw s)"
  by (auto simp: tick_def)

lemma length_locals: "ready s \<Longrightarrow> length (locals s l) = 16"
  by (cases l) (simp_all add: ready_def)

lemma ready_tick: "ready s \<Longrightarrow> ready (tick s)"
  by (simp add: ready_def tick_def configured_elapse sized_elapse src_elapse)

lemma PutString_fields [simp]:
  "uart (Cy_SCB_UART_PutString str s) = uart s @ map byte_of str"
  "locals (Cy_SCB_UART_PutString str s) = locals s"
  "hw (Cy_SCB_UART_PutString str s) = hw (tick s)"
  "sched (Cy_SCB_UART_PutString str s) = sched (tick s)"
  by (simp_all add: Cy_SCB_UART_PutString_def Let_def)

lemma ready_PutString: "ready s \<Longrightarrow> ready (Cy_SCB_UART_PutString str s)"
  using ready_tick [of s] by (simp add: ready_def)

lemma read_and_put_fields:
  "hw (read_and_put r l i s) = hw (tick s)"
  "locals (read_and_put r l i s) = (locals s)(l := (locals s l)[i := mem (hw s) r ! i])"
  "uart (read_and_put r l i s) = uart s @ [(locals s l)[i := mem (hw s) r ! i] ! i]"
  "sched (read_and_put r l i s) = sched (tick s)"
  by (simp_all add: read_and_put_def Let_def Cy_SCB_UART_Put_def tick_def)

lemma read_and_put_sends:
  "i < length (locals s l) \<Longrightarrow> uart (read_and_put r l i s) = uart s @ [mem (hw s) r ! i]"
  by (simp add: read_and_put_fields)

lemma ready_read_and_put: "ready s \<Longrightarrow> ready (read_and_put r l i s)"
  using ready_tick [of s] by (cases l) (simp_all add: ready_def read_and_put_fields)

lemma fold_read_and_put:
  assumes "ready s" and "distinct js" and "\<forall>i\<in>set js. i < 16"
  shows "ready (fold (read_and_put r l) js s) \<and>
         uart (fold (read_and_put r l) js s) =
           uart s @ map ((!) (locals (fold (read_and_put r l) js s) l)) js \<and>
         (\<forall>l'. l' \<noteq> l \<longrightarrow> locals (fold (read_and_put r l) js s) l' = locals s l') \<and>
         (\<exists>n. hw (fold (read_and_put r l) js s) = elapse n (hw s)) \<and>
         ((\<forall>n. mem (elapse n (hw s)) r = m) \<longrightarrow>
            (\<forall>i\<in>set js. locals (fold (read_and_put r l) js s) l ! i = m ! i))"
  using assms(2,3)
proof (induction js rule: rev_induct)
  case Nil
  have "hw s = elapse 0 (hw s)" by simp
  then have "\<exists>n. hw s = elapse n (hw s)" ..
  with assms(1) show ?case by simp
next
  case (snoc j js)
  define s1 where "s1 = fold (read_and_put r l) js s"
  define s2 where "s2 = read_and_put r l j s1"
  have s2: "fold (read_and_put r l) (js @ [j]) s = s2"
    by (simp add: s1_def s2_def)
  from snoc.prems have d: "distinct js" and jn: "j \<notin> set js" and b: "\<forall>i\<in>set js. i < 16"
    and j: "j < 16" by simp_all
  from snoc.IH [OF d b]
  have r1: "ready s1"
    and u1: "uart s1 = uart s @ map ((!) (locals s1 l)) js"
    and f1: "\<forall>l'. l' \<noteq> l \<longrightarrow> locals s1 l' = locals s l'"
    and h1: "\<exists>n. hw s1 = elapse n (hw s)"
    and m1: "(\<forall>n. mem (elapse n (hw s)) r = m) \<longrightarrow> (\<forall>i\<in>set js. locals s1 l ! i = m ! i)"
    by (simp_all add: s1_def)
  have len: "length (locals s1 l) = 16" using r1 by (rule length_locals)
  have r2: "ready s2" unfolding s2_def using r1 by (rule ready_read_and_put)
  have l2: "locals s2 l = (locals s1 l)[j := mem (hw s1) r ! j]"
    by (simp add: s2_def read_and_put_fields)
  have same: "map ((!) (locals s2 l)) js = map ((!) (locals s1 l)) js"
  proof (rule map_cong [OF refl])
    fix i assume "i \<in> set js"
    with jn have "j \<noteq> i" by auto
    then show "locals s2 l ! i = locals s1 l ! i" by (simp add: l2)
  qed
  have at_j: "locals s2 l ! j = mem (hw s1) r ! j"
    using j len by (simp add: l2)
  have u2: "uart s2 = uart s @ map ((!) (locals s2 l)) (js @ [j])"
    using j len by (simp add: s2_def read_and_put_fields u1 same [unfolded l2] l2)
  have f2: "\<forall>l'. l' \<noteq> l \<longrightarrow> locals s2 l' = locals s l'"
    using f1 by (simp add: s2_def read_and_put_fields)
  obtain n where n: "hw s1 = elapse n (hw s)" using h1 ..
  obtain k where k: "hw (tick s1) = elapse k (hw s1)" using hw_tick ..
  have "hw s2 = elapse (n + k) (hw s)"
    by (simp add: s2_def read_and_put_fields k n elapse_add)
  then have h2: "\<exists>n. hw s2 = elapse n (hw s)" ..
  have m2: "(\<forall>n. mem (elapse n (hw s)) r = m) \<longrightarrow> (\<forall>i\<in>set (js @ [j]). locals s2 l ! i = m ! i)"
  proof
    assume st: "\<forall>n. mem (elapse n (hw s)) r = m"
    then have "mem (hw s1) r = m" by (simp add: n)
    then have "locals s2 l ! j = m ! j" by (simp add: at_j)
    moreover have "\<forall>i\<in>set js. locals s2 l ! i = m ! i"
    proof
      fix i assume i: "i \<in> set js"
      with jn have "i \<noteq> j" by auto
      then have "locals s2 l ! i = locals s1 l ! i" by (simp add: l2)
      with m1 st i show "locals s2 l ! i = m ! i" by simp
    qed
    ultimately show "\<forall>i\<in>set (js @ [j]). locals s2 l ! i = m ! i" by simp
  qed
  show ?case unfolding s2 using r2 u2 f2 h2 m2 by blast
qed


lemma for_up_fold: "for_up body 0 s = fold body (map of_nat [0..<16]) s"
  by (simp add: for_up.simps DMAC_TRANSFER_SIZE_def upt_rec)

lemma for_down_fold: "for_down body 15 s = fold body (map of_nat (rev [0..<16])) s"
  by (simp add: for_down.simps DMAC_TRANSFER_SIZE_def upt_rec)

lemma unat_of_nat_u8: "n < 16 \<Longrightarrow> unat (of_nat n :: u8) = n"
  by (simp add: unat_of_nat)

lemma unat_of_nat_u32: "n < 16 \<Longrightarrow> unat (of_nat n :: u32) = n"
  by (simp add: unat_of_nat)

lemma fold_index_u8:
  "\<forall>n\<in>set ns. n < 16 \<Longrightarrow> fold (\<lambda>i :: u8. f (unat i)) (map of_nat ns) s = fold f ns s"
  by (induction ns arbitrary: s) (simp_all add: unat_of_nat_u8)

lemma fold_index_u32:
  "\<forall>n\<in>set ns. n < 16 \<Longrightarrow> fold (\<lambda>i :: u32. f (unat i)) (map of_nat ns) s = fold f ns s"
  by (induction ns arbitrary: s) (simp_all add: unat_of_nat_u32)

lemma print_ping_src_fold:
  "print_ping_src s = fold (read_and_put g_region1Src srcdata1) [0..<16] s"
  unfolding print_ping_src_def for_up_fold by (rule fold_index_u8) simp

lemma print_ping_dst_fold:
  "print_ping_dst s = fold (read_and_put g_region1Dst dstdata1) [0..<16] s"
  unfolding print_ping_dst_def for_up_fold by (rule fold_index_u8) simp

lemma print_pong_src_fold:
  "print_pong_src s = fold (read_and_put g_region2Src srcdata2) (rev [0..<16]) s"
  unfolding print_pong_src_def for_down_fold by (rule fold_index_u32) simp

lemma print_pong_dst_fold:
  "print_pong_dst s = fold (read_and_put g_region2Dst dstdata2) (rev [0..<16]) s"
  unfolding print_pong_dst_def for_down_fold by (rule fold_index_u32) simp

lemma nth_upto_16: "length xs = 16 \<Longrightarrow> map ((!) xs) [0..<16] = xs"
  using map_nth [of xs] by simp

lemma all_16: "length xs = 16 \<Longrightarrow> length ys = 16 \<Longrightarrow> \<forall>i\<in>set [0..<16]. xs ! i = ys ! i \<Longrightarrow> xs = ys"
  by (rule nth_equalityI) simp_all

lemma forward_block:
  fixes s :: state and r :: region and l :: local_array
  assumes "ready s"
  defines "s' \<equiv> fold (read_and_put r l) [0..<16] s"
  shows "ready s'" and "uart s' = uart s @ locals s' l"
    and "l' \<noteq> l \<Longrightarrow> locals s' l' = locals s l'"
    and "\<exists>n. hw s' = elapse n (hw s)"
    and "\<forall>n. mem (elapse n (hw s)) r = m \<Longrightarrow> length m = 16 \<Longrightarrow> locals s' l = m"
proof -
  have d: "distinct [0..<16::nat]" and b: "\<forall>i\<in>set [0..<16::nat]. i < 16" by simp_all
  note core = fold_read_and_put [OF assms(1) d b, of r l m, folded s'_def]
  show r: "ready s'" using core by blast
  have len: "length (locals s' l) = 16" using r by (rule length_locals)
  show "uart s' = uart s @ locals s' l" using core nth_upto_16 [OF len] by simp
  show "l' \<noteq> l \<Longrightarrow> locals s' l' = locals s l'" using core by blast
  show "\<exists>n. hw s' = elapse n (hw s)" using core by blast
  show "locals s' l = m" if "\<forall>n. mem (elapse n (hw s)) r = m" "length m = 16"
    using core that len by (intro all_16) blast+
qed

lemma backward_block:
  fixes s :: state and r :: region and l :: local_array
  assumes "ready s"
  defines "s' \<equiv> fold (read_and_put r l) (rev [0..<16]) s"
  shows "ready s'" and "uart s' = uart s @ rev (locals s' l)"
    and "l' \<noteq> l \<Longrightarrow> locals s' l' = locals s l'"
    and "\<exists>n. hw s' = elapse n (hw s)"
    and "\<forall>n. mem (elapse n (hw s)) r = m \<Longrightarrow> length m = 16 \<Longrightarrow> locals s' l = m"
proof -
  have d: "distinct (rev [0..<16::nat])" and b: "\<forall>i\<in>set (rev [0..<16::nat]). i < 16"
    by simp_all
  note core = fold_read_and_put [OF assms(1) d b, of r l m, folded s'_def]
  show r: "ready s'" using core by blast
  have len: "length (locals s' l) = 16" using r by (rule length_locals)
  have "uart s' = uart s @ map ((!) (locals s' l)) (rev [0..<16])" using core by blast
  also have "map ((!) (locals s' l)) (rev [0..<16]) = rev (map ((!) (locals s' l)) [0..<16])"
    by (rule rev_map [symmetric])
  finally show "uart s' = uart s @ rev (locals s' l)" by (simp only: nth_upto_16 [OF len])
  show "l' \<noteq> l \<Longrightarrow> locals s' l' = locals s l'" using core by blast
  show "\<exists>n. hw s' = elapse n (hw s)" using core by blast
  show "locals s' l = m" if "\<forall>n. mem (elapse n (hw s)) r = m" "length m = 16"
  proof (rule all_16 [OF len that(2)])
    from core that(1) have "\<forall>i\<in>set (rev [0..<16]). locals s' l ! i = m ! i" by blast
    then show "\<forall>i\<in>set [0..<16]. locals s' l ! i = m ! i" by simp
  qed
qed


lemma length_initial_memory: "length (initial_memory r) = 16"
  by (cases r) (simp_all add: initial_memory_def string_init_def array_init_def DMAC_TRANSFER_SIZE_def)

lemma src_stable:
  assumes "ready s"
  shows "\<forall>n. mem (elapse n (hw s)) g_region1Src = initial_memory g_region1Src"
    and "\<forall>n. mem (elapse n (hw s)) g_region2Src = initial_memory g_region2Src"
  using assms src_elapse [of "hw s"] by (simp_all add: ready_def)

lemma quiescent_stable:
  "quiescent (hw s) \<Longrightarrow> \<forall>n. mem (elapse n (hw s)) r = mem (hw s) r"
  by (simp add: elapse_quiescent)

lemma elapse_elapse: "\<exists>n. h' = elapse n h \<Longrightarrow> \<exists>n. elapse k h' = elapse n h"
proof -
  assume "\<exists>n. h' = elapse n h"
  then obtain n where "h' = elapse n h" ..
  then have "elapse k h' = elapse (n + k) h" by (simp add: elapse_add)
  then show ?thesis ..
qed

lemma hw_PutString_elapse:
  "\<exists>n. hw s = elapse n h \<Longrightarrow> \<exists>n. hw (Cy_SCB_UART_PutString str s) = elapse n h"
  by (simp add: tick_def elapse_elapse)

lemma hw_chain: "\<exists>n. h2 = elapse n h1 \<Longrightarrow> \<exists>n. h1 = elapse n h \<Longrightarrow> \<exists>n. h2 = elapse n h"
  using elapse_elapse by blast

lemma report_result:
  assumes rdy: "ready s"
  shows "ready (report s)"
    and "uart (report s) =
           uart s @ map byte_of ''PING source = '' @ initial_memory g_region1Src @ map byte_of CRLF @
           map byte_of ''PING destination = '' @ locals (report s) dstdata1 @ map byte_of CRLF @
           map byte_of ''PONG source = '' @ rev (initial_memory g_region2Src) @ map byte_of CRLF @
           map byte_of ''PONG destination = '' @ rev (locals (report s) dstdata2) @ map byte_of CRLF @
           map byte_of (''- DMA transfer is completed. '' @ CRLF)"
    and "locals (report s) srcdata1 = initial_memory g_region1Src"
    and "locals (report s) srcdata2 = initial_memory g_region2Src"
    and "\<exists>n. hw (report s) = elapse n (hw s)"
    and "quiescent (hw (Cy_SCB_UART_PutString ''PING source = '' s)) \<Longrightarrow>
           locals (report s) dstdata1 =
             mem (hw (Cy_SCB_UART_PutString ''PING source = '' s)) g_region1Dst \<and>
           locals (report s) dstdata2 =
             mem (hw (Cy_SCB_UART_PutString ''PING source = '' s)) g_region2Dst"
proof -
  define s1 where "s1 = Cy_SCB_UART_PutString ''PING source = '' s"
  define s2 where "s2 = print_ping_src s1"
  define s3 where "s3 = Cy_SCB_UART_PutString ''PING destination = '' (Cy_SCB_UART_PutString CRLF s2)"
  define s4 where "s4 = print_ping_dst s3"
  define s5 where "s5 = Cy_SCB_UART_PutString ''PONG source = '' (Cy_SCB_UART_PutString CRLF s4)"
  define s6 where "s6 = print_pong_src s5"
  define s7 where "s7 = Cy_SCB_UART_PutString ''PONG destination = '' (Cy_SCB_UART_PutString CRLF s6)"
  define s8 where "s8 = print_pong_dst s7"
  define s9 where "s9 = Cy_SCB_UART_PutString (''- DMA transfer is completed. '' @ CRLF)
                          (Cy_SCB_UART_PutString CRLF s8)"
  have rep: "report s = s9"
    by (simp add: report_def s1_def s2_def s3_def s4_def s5_def s6_def s7_def s8_def s9_def)
  have r1: "ready s1" unfolding s1_def using rdy by (rule ready_PutString)
  have h1: "\<exists>n. hw s1 = elapse n (hw s)" unfolding s1_def by (auto simp: tick_def)
  note b2 = forward_block [OF r1, where r = g_region1Src and l = srcdata1, folded print_ping_src_fold s2_def]
  have l2: "locals s2 srcdata1 = initial_memory g_region1Src"
    using b2(5) [where m = "initial_memory g_region1Src"] src_stable(1) [OF r1] length_initial_memory
    by blast
  have u2: "uart s2 = uart s @ map byte_of ''PING source = '' @ initial_memory g_region1Src"
    using b2(2) l2 by (simp add: s1_def)
  have r3: "ready s3" unfolding s3_def using b2(1) by (intro ready_PutString)
  have k3: "\<exists>n. hw s3 = elapse n (hw s1)"
    unfolding s3_def using b2(4) by (intro hw_PutString_elapse)
  have h3: "\<exists>n. hw s3 = elapse n (hw s)"
    using k3 h1 by (rule hw_chain)
  note b4 = forward_block [OF r3, where r = g_region1Dst and l = dstdata1, folded print_ping_dst_fold s4_def]
  have r5: "ready s5" unfolding s5_def using b4(1) by (intro ready_PutString)
  have k5: "\<exists>n. hw s5 = elapse n (hw s1)"
    unfolding s5_def using hw_chain [OF b4(4) k3] by (intro hw_PutString_elapse)
  have h5: "\<exists>n. hw s5 = elapse n (hw s)"
    using k5 h1 by (rule hw_chain)
  note b6 = backward_block [OF r5, where r = g_region2Src and l = srcdata2, folded print_pong_src_fold s6_def]
  have l6: "locals s6 srcdata2 = initial_memory g_region2Src"
    using b6(5) [where m = "initial_memory g_region2Src"] src_stable(2) [OF r5] length_initial_memory
    by blast
  have r7: "ready s7" unfolding s7_def using b6(1) by (intro ready_PutString)
  have k7: "\<exists>n. hw s7 = elapse n (hw s1)"
    unfolding s7_def using hw_chain [OF b6(4) k5] by (intro hw_PutString_elapse)
  have h7: "\<exists>n. hw s7 = elapse n (hw s)"
    using k7 h1 by (rule hw_chain)
  note b8 = backward_block [OF r7, where r = g_region2Dst and l = dstdata2, folded print_pong_dst_fold s8_def]
  have r9: "ready s9" unfolding s9_def using b8(1) by (intro ready_PutString)
  have h9: "\<exists>n. hw s9 = elapse n (hw s)"
    unfolding s9_def using hw_chain [OF b8(4) h7] by (intro hw_PutString_elapse)
  have src1: "locals s9 srcdata1 = initial_memory g_region1Src"
    using l2 b4(3) [where l' = srcdata1] b6(3) [where l' = srcdata1] b8(3) [where l' = srcdata1]
    by (simp add: s9_def s7_def s5_def s3_def)
  have src2: "locals s9 srcdata2 = initial_memory g_region2Src"
    using l6 b8(3) [where l' = srcdata2] by (simp add: s9_def s7_def)
  have dst1: "locals s9 dstdata1 = locals s4 dstdata1"
    using b6(3) [where l' = dstdata1] b8(3) [where l' = dstdata1] by (simp add: s9_def s7_def s5_def)
  have dst2: "locals s9 dstdata2 = locals s8 dstdata2"
    by (simp add: s9_def)
  have u4: "uart s4 = uart s2 @ map byte_of CRLF @ map byte_of ''PING destination = '' @
                        locals s9 dstdata1"
    using b4(2) by (simp add: s3_def dst1)
  have u6: "uart s6 = uart s4 @ map byte_of CRLF @ map byte_of ''PONG source = '' @
                        rev (initial_memory g_region2Src)"
    using b6(2) l6 by (simp add: s5_def)
  have u8: "uart s8 = uart s6 @ map byte_of CRLF @ map byte_of ''PONG destination = '' @
                        rev (locals s9 dstdata2)"
    using b8(2) by (simp add: s7_def dst2)
  have u9: "uart s9 = uart s8 @ map byte_of CRLF @
                        map byte_of (''- DMA transfer is completed. '' @ CRLF)"
    by (simp add: s9_def)
  show "locals (report s) dstdata1 =
          mem (hw (Cy_SCB_UART_PutString ''PING source = '' s)) g_region1Dst \<and>
        locals (report s) dstdata2 =
          mem (hw (Cy_SCB_UART_PutString ''PING source = '' s)) g_region2Dst"
    if "quiescent (hw (Cy_SCB_UART_PutString ''PING source = '' s))"
  proof -
    from that have q: "quiescent (hw s1)" by (simp only: s1_def)
    from k3 q have e3: "hw s3 = hw s1" by (auto simp: elapse_quiescent)
    from k7 q have e7: "hw s7 = hw s1" by (auto simp: elapse_quiescent)
    have z1: "sized (hw s1)" using r1 by (simp add: ready_def)
    have st1: "\<forall>n. mem (elapse n (hw s3)) g_region1Dst = mem (hw s1) g_region1Dst"
      using q by (simp add: e3 elapse_quiescent)
    have len1: "length (mem (hw s1) g_region1Dst) = 16" using z1 by (simp add: sized_def)
    have d1: "locals s4 dstdata1 = mem (hw s1) g_region1Dst" using st1 len1 by (rule b4(5))
    have st2: "\<forall>n. mem (elapse n (hw s7)) g_region2Dst = mem (hw s1) g_region2Dst"
      using q by (simp add: e7 elapse_quiescent)
    have len2: "length (mem (hw s1) g_region2Dst) = 16" using z1 by (simp add: sized_def)
    have d2: "locals s8 dstdata2 = mem (hw s1) g_region2Dst" using st2 len2 by (rule b8(5))
    from d1 d2 show ?thesis by (simp only: rep dst1 dst2 s1_def simp_thms)
  qed
  show "ready (report s)" using r9 by (simp only: rep)
  show "locals (report s) srcdata1 = initial_memory g_region1Src" using src1 by (simp only: rep)
  show "locals (report s) srcdata2 = initial_memory g_region2Src" using src2 by (simp only: rep)
  show "\<exists>n. hw (report s) = elapse n (hw s)" using h9 by (simp only: rep)
  show "uart (report s) =
           uart s @ map byte_of ''PING source = '' @ initial_memory g_region1Src @ map byte_of CRLF @
           map byte_of ''PING destination = '' @ locals (report s) dstdata1 @ map byte_of CRLF @
           map byte_of ''PONG source = '' @ rev (initial_memory g_region2Src) @ map byte_of CRLF @
           map byte_of ''PONG destination = '' @ rev (locals (report s) dstdata2) @ map byte_of CRLF @
           map byte_of (''- DMA transfer is completed. '' @ CRLF)"
    unfolding rep u9 u8 u6 u4 u2 by (simp only: append_assoc)
qed


lemma configure_fields:
  "uart (configure s) = uart s" "locals (configure s) = locals s" "sched (configure s) = sched s"
  by (simp_all add: configure_def on_hw_def Let_def)

lemma hw_configure: "hw (configure (reset_state env)) = armed_hardware"
  by (simp add: configure_def on_hw_def Let_def reset_state_def reset_hardware_def
      reset_descriptor_def armed_hardware_def Cy_DMAC_Channel_Init_def Cy_DMAC_Descriptor_Init_def
      Cy_DMAC_Descriptor_SetSrcAddress_def Cy_DMAC_Descriptor_SetDstAddress_def
      Cy_DMAC_Channel_Enable_def Cy_DMAC_Enable_def descr_def set_descr_def
      USER_DMA_ping_config_def USER_DMA_pong_config_def)

lemma quiescent_armed: "quiescent armed_hardware"
  by (simp add: quiescent_def armed_hardware_def)

lemma hw_tick_quiescent: "quiescent (hw s) \<Longrightarrow> hw (tick s) = hw s"
  by (simp add: tick_def elapse_quiescent)

lemma banner_fields:
  "uart (banner s) = uart s @ map byte_of BANNER"
  "locals (banner s) = locals s"
  "quiescent (hw s) \<Longrightarrow> hw (banner s) = hw s"
  by (simp_all add: banner_def Let_def BANNER_def BANNER_BLOCK_def hw_tick_quiescent)

lemma startup_fields:
  "hw (banner (configure (reset_state env))) = armed_hardware"
  "uart (banner (configure (reset_state env))) = map byte_of BANNER"
  "locals (banner (configure (reset_state env))) = (\<lambda>_. replicate 16 0)"
proof -
  show "hw (banner (configure (reset_state env))) = armed_hardware"
    by (simp add: banner_fields hw_configure quiescent_armed)
  show "uart (banner (configure (reset_state env))) = map byte_of BANNER"
    by (simp add: banner_fields configure_fields) (simp add: reset_state_def)
  show "locals (banner (configure (reset_state env))) = (\<lambda>_. replicate 16 0)"
    by (simp add: banner_fields configure_fields) (simp add: reset_state_def)
qed

lemma configured_armed: "configured armed_hardware"
  by (simp add: configured_def armed_hardware_def)

lemma sized_armed: "sized armed_hardware"
  by (simp add: sized_def armed_hardware_def length_initial_memory)

lemma triggered: "Cy_TrigMux_SwTrigger armed_hardware =
    armed_hardware\<lparr>channel := Transferring CY_DMAC_DESCRIPTOR_PING 0\<rparr>"
  by (simp add: Cy_TrigMux_SwTrigger_def armed_hardware_def)

lemma chain_inv_triggered: "chain_inv (Cy_TrigMux_SwTrigger armed_hardware)"
  using configured_armed sized_armed
  by (simp add: triggered chain_inv_def configured_def sized_def) (simp add: armed_hardware_def)

lemma configure_sched: "sched (configure s) = sched s"
  by (simp add: configure_def on_hw_def Let_def)

lemma banner_sched: "sched (banner s) = drop 4 (sched s)"
  by (simp add: banner_def Let_def Cy_SCB_UART_PutString_def drop_Suc tl_drop
      numeral_eq_Suc)

lemma triggered_state_fields:
  "hw (triggered_state env) = Cy_TrigMux_SwTrigger armed_hardware"
  "uart (triggered_state env) = map byte_of BANNER"
  "locals (triggered_state env) = (\<lambda>_. replicate 16 0)"
  "sched (triggered_state env) = drop 4 env"
  by (simp_all add: triggered_state_def on_hw_def startup_fields banner_sched configure_sched)
     (simp add: reset_state_def)

lemma ready_triggered: "ready (triggered_state env)"
  using configured_armed sized_armed
  by (simp add: ready_def triggered_state_fields triggered configured_def sized_def)
     (simp add: armed_hardware_def)

lemma wait_transfer_result:
  assumes "ready s" and "wait_transfer fuel s = Inl s' \<or> wait_transfer fuel s = Inr s'"
  shows "ready s' \<and> uart s' = uart s \<and> locals s' = locals s \<and> (\<exists>n. hw s' = elapse n (hw s))"
  using assms
proof (induction fuel arbitrary: s)
  case 0
  have "hw s = elapse 0 (hw s)" by simp
  then have "\<exists>n. hw s = elapse n (hw s)" ..
  with 0 show ?case by auto
next
  case (Suc fuel)
  have rt: "ready (tick s)" using Suc.prems(1) by (rule ready_tick)
  have ht: "\<exists>n. hw (tick s) = elapse n (hw s)" by (rule hw_tick)
  show ?case
  proof (cases "Cy_DMAC_Descriptor_GetResponse CY_DMAC_DESCRIPTOR_PONG (hw (tick s)) = Done")
    case True
    with Suc.prems(2)
    have "wait_transfer fuel (tick s) = Inl s' \<or> wait_transfer fuel (tick s) = Inr s'"
      by (simp add: Let_def)
    from Suc.IH [OF rt this] hw_chain [OF _ ht] show ?thesis by auto
  next
    case False
    with Suc.prems(2) have "s' = tick s" by (auto simp: Let_def)
    with rt ht show ?thesis by simp
  qed
qed

lemma wait_transfer_exit:
  "wait_transfer fuel s = Inr s' \<Longrightarrow> response (pong (hw s')) = Pending"
proof (induction fuel arbitrary: s)
  case 0
  then show ?case by simp
next
  case (Suc fuel)
  show ?case
  proof (cases "Cy_DMAC_Descriptor_GetResponse CY_DMAC_DESCRIPTOR_PONG (hw (tick s)) = Done")
    case True
    with Suc.prems have "wait_transfer fuel (tick s) = Inr s'" by (simp add: Let_def)
    then show ?thesis by (rule Suc.IH)
  next
    case False
    with Suc.prems have "s' = tick s" by (auto simp: Let_def)
    with False show ?thesis
      by (cases "response (pong (hw (tick s)))")
         (simp_all add: Cy_DMAC_Descriptor_GetResponse_def descr_def)
  qed
qed

lemma pong_done_dma_step: "response (pong h) = Done \<Longrightarrow> response (pong (dma_step h)) = Done"
  by (auto simp: dma_step_def set_descr_def descr_def Let_def
      split: lifecycle.splits cy_en_dmac_descriptor_t.splits option.splits)

lemma pong_done_elapse: "response (pong h) = Done \<Longrightarrow> response (pong (elapse n h)) = Done"
  by (induction n arbitrary: h) (simp_all add: pong_done_dma_step)

lemma wait_transfer_spins:
  "response (pong (hw s)) = Done \<Longrightarrow> \<exists>s'. wait_transfer fuel s = Inl s'"
proof (induction fuel arbitrary: s)
  case 0
  then show ?case by simp
next
  case (Suc fuel)
  then have d: "response (pong (hw (tick s))) = Done"
    by (simp add: tick_def pong_done_elapse)
  from Suc.IH [OF d] d show ?case
    by (simp add: Let_def Cy_DMAC_Descriptor_GetResponse_def descr_def)
qed

lemma main_idle:
  assumes "main fuel result env = IdleLoop s"
  shows "ready s"
    and "uart s = map byte_of BANNER @
           map byte_of ''PING source = '' @ initial_memory g_region1Src @ map byte_of CRLF @
           map byte_of ''PING destination = '' @ locals s dstdata1 @ map byte_of CRLF @
           map byte_of ''PONG source = '' @ rev (initial_memory g_region2Src) @ map byte_of CRLF @
           map byte_of ''PONG destination = '' @ rev (locals s dstdata2) @ map byte_of CRLF @
           map byte_of (''- DMA transfer is completed. '' @ CRLF)"
    and "\<exists>n. hw s = elapse n (Cy_TrigMux_SwTrigger armed_hardware)"
    and "locals s srcdata1 = initial_memory g_region1Src"
    and "locals s srcdata2 = initial_memory g_region2Src"
proof -
  define t where "t = triggered_state env"
  from assms obtain w where w: "wait_transfer fuel t = Inr w" and s: "s = report w"
    by (auto simp: main_def after_init_def CY_ASSERT_def t_def triggered_state_def Let_def
        split: if_splits sum.splits)
  have rt: "ready t" unfolding t_def by (rule ready_triggered)
  have ut: "uart t = map byte_of BANNER" and ht: "hw t = Cy_TrigMux_SwTrigger armed_hardware"
    by (simp_all add: t_def triggered_state_fields)
  from wait_transfer_result [OF rt] w
  have rw: "ready w" and uw: "uart w = uart t" and hw: "\<exists>n. hw w = elapse n (hw t)"
    by blast+
  note rep = report_result [OF rw, folded s]
  show "ready s" by (rule rep(1))
  show "locals s srcdata1 = initial_memory g_region1Src" by (rule rep(3))
  show "locals s srcdata2 = initial_memory g_region2Src" by (rule rep(4))
  show "\<exists>n. hw s = elapse n (Cy_TrigMux_SwTrigger armed_hardware)"
    using hw_chain [OF rep(5) hw] by (simp only: ht)
  show "uart s = map byte_of BANNER @
           map byte_of ''PING source = '' @ initial_memory g_region1Src @ map byte_of CRLF @
           map byte_of ''PING destination = '' @ locals s dstdata1 @ map byte_of CRLF @
           map byte_of ''PONG source = '' @ rev (initial_memory g_region2Src) @ map byte_of CRLF @
           map byte_of ''PONG destination = '' @ rev (locals s dstdata2) @ map byte_of CRLF @
           map byte_of (''- DMA transfer is completed. '' @ CRLF)"
    unfolding rep(2) uw ut ..
qed

lemma main_final_ready:
  "result = CY_RSLT_SUCCESS \<Longrightarrow> ready (final_state (main fuel result env))"
proof -
  assume ok: "result = CY_RSLT_SUCCESS"
  define t where "t = triggered_state env"
  have rt: "ready t" unfolding t_def by (rule ready_triggered)
  show ?thesis
  proof (cases "wait_transfer fuel t")
    case (Inl w)
    with wait_transfer_result [OF rt, of fuel w] ok show ?thesis
      by (simp add: main_def after_init_def CY_ASSERT_def t_def triggered_state_def)
  next
    case (Inr w)
    with wait_transfer_result [OF rt, of fuel w] have "ready w" by simp
    then have "ready (report w)" by (rule report_result(1))
    with Inr ok show ?thesis
      by (simp add: main_def after_init_def CY_ASSERT_def t_def triggered_state_def)
  qed
qed

subsection \<open>The controller after the trigger\<close>

lemma transfer_after_eq: "transfer_after env n = elapse n (Cy_TrigMux_SwTrigger armed_hardware)"
  by (simp add: transfer_after_def triggered_state_fields)

lemma chain_inv_transfer_after: "chain_inv (transfer_after env n)"
  by (simp add: transfer_after_eq chain_inv_triggered chain_inv_elapse)

lemma chain_inv_pong_done:
  assumes "chain_inv h" and "response (pong h) = Done"
  shows "channel h = Completed"
proof (cases "channel h")
  case (Transferring d k)
  with assms show ?thesis by (cases d) (simp_all add: chain_inv_def)
qed (use assms in \<open>simp_all add: chain_inv_def\<close>)

lemma snapshot_5:
  "snapshot (elapse 5 (Cy_TrigMux_SwTrigger armed_hardware)) =
     (Transferring CY_DMAC_DESCRIPTOR_PING 5, Pending, Pending,
      map byte_of ''PSoC4_HVMS-DMADC'', map byte_of ''PSoC4'' @ replicate 11 0,
      map byte_of ''PSoC4_HVMS-DMADC'', replicate 16 0)"
  by code_simp

lemma snapshot_20:
  "snapshot (elapse 20 (Cy_TrigMux_SwTrigger armed_hardware)) =
     (Transferring CY_DMAC_DESCRIPTOR_PONG 3, Done, Pending,
      map byte_of ''PSoC4_HVMS-DMADC'', map byte_of ''PSoC4_HVMS-DMADC'',
      map byte_of ''PSoC4_HVMS-DMADC'', map byte_of ''PSo'' @ replicate 13 0)"
  by code_simp

lemma snapshot_34:
  "snapshot (elapse 34 (Cy_TrigMux_SwTrigger armed_hardware)) =
     (Completed, Done, Done,
      map byte_of ''PSoC4_HVMS-DMADC'', map byte_of ''PSoC4_HVMS-DMADC'',
      map byte_of ''PSoC4_HVMS-DMADC'', map byte_of ''PSoC4_HVMS-DMADC'')"
  by code_simp

lemma engine_34:
  "channel (elapse 34 (Cy_TrigMux_SwTrigger armed_hardware)) = Completed"
  "response (ping (elapse 34 (Cy_TrigMux_SwTrigger armed_hardware))) = Done"
  "response (pong (elapse 34 (Cy_TrigMux_SwTrigger armed_hardware))) = Done"
  "mem (elapse 34 (Cy_TrigMux_SwTrigger armed_hardware)) g_region1Src =
     map byte_of ''PSoC4_HVMS-DMADC''"
  "mem (elapse 34 (Cy_TrigMux_SwTrigger armed_hardware)) g_region1Dst =
     map byte_of ''PSoC4_HVMS-DMADC''"
  "mem (elapse 34 (Cy_TrigMux_SwTrigger armed_hardware)) g_region2Src =
     map byte_of ''PSoC4_HVMS-DMADC''"
  "mem (elapse 34 (Cy_TrigMux_SwTrigger armed_hardware)) g_region2Dst =
     map byte_of ''PSoC4_HVMS-DMADC''"
  using snapshot_34 by (simp_all add: snapshot_def)

lemma elapse_past_34:
  "34 \<le> n \<Longrightarrow> elapse n (Cy_TrigMux_SwTrigger armed_hardware) =
     elapse 34 (Cy_TrigMux_SwTrigger armed_hardware)"
proof -
  assume "34 \<le> n"
  then have n: "n = 34 + (n - 34)" by simp
  have q: "quiescent (elapse 34 (Cy_TrigMux_SwTrigger armed_hardware))"
    by (simp add: quiescent_def engine_34)
  show ?thesis
    by (subst n, subst elapse_add) (simp only: elapse_quiescent [OF q])
qed

subsection \<open>Runs of main\<close>

lemma tick_triggered:
  "hw (tick (triggered_state (a # b # c # d # n # env))) =
     elapse n (Cy_TrigMux_SwTrigger armed_hardware)"
  "sched (tick (triggered_state (a # b # c # d # n # env))) = env"
  by (simp_all add: tick_def triggered_state_fields)

lemma main_first_poll:
  assumes "response (pong (hw (tick (triggered_state env)))) = Pending"
  shows "wait_transfer (Suc fuel) (triggered_state env) = Inr (tick (triggered_state env))"
    and "main (Suc fuel) CY_RSLT_SUCCESS env = IdleLoop (report (tick (triggered_state env)))"
proof -
  show w: "wait_transfer (Suc fuel) (triggered_state env) = Inr (tick (triggered_state env))"
    using assms by (simp add: Let_def Cy_DMAC_Descriptor_GetResponse_def descr_def)
  show "main (Suc fuel) CY_RSLT_SUCCESS env = IdleLoop (report (tick (triggered_state env)))"
    using w by (simp add: main_def after_init_def triggered_state_def)
qed

lemma main_first_poll_done:
  assumes "response (pong (hw (tick (triggered_state env)))) = Done"
  shows "\<exists>s. main (Suc fuel) CY_RSLT_SUCCESS env = StillPolling s \<and> uart s = map byte_of BANNER"
proof -
  have r: "ready (tick (triggered_state env))" using ready_triggered by (rule ready_tick)
  obtain s where s: "wait_transfer fuel (tick (triggered_state env)) = Inl s"
    using wait_transfer_spins [OF assms] by blast
  with wait_transfer_result [OF r, of fuel s]
  have "uart s = map byte_of BANNER" by (simp add: triggered_state_fields)
  moreover have "main (Suc fuel) CY_RSLT_SUCCESS env = StillPolling s"
    using assms s
    by (simp add: main_def after_init_def triggered_state_def [symmetric] Let_def
        Cy_DMAC_Descriptor_GetResponse_def descr_def)
  ultimately show ?thesis by blast
qed

lemma report_starts_while_pong_pending:
  assumes "main fuel result env = IdleLoop s"
  shows "\<exists>w. wait_transfer fuel (triggered_state env) = Inr w \<and> s = report w \<and>
           response (pong (hw w)) = Pending"
proof -
  from assms obtain w where w: "wait_transfer fuel (triggered_state env) = Inr w"
    and s: "s = report w"
    by (auto simp: main_def after_init_def CY_ASSERT_def triggered_state_def Let_def
        split: if_splits sum.splits)
  from w have "response (pong (hw w)) = Pending" by (rule wait_transfer_exit)
  with w s show ?thesis by blast
qed

lemma final_line_completed:
  "final_line (xs @ map byte_of CRLF @ map byte_of (''- DMA transfer is completed. '' @ CRLF)) =
     map byte_of ''- DMA transfer is completed. ''"
  by (simp add: final_line_def CRLF_def byte_of_def)

lemma source_bytes:
  "initial_memory g_region1Src = map byte_of ''PSoC4_HVMS-DMADC''"
  "initial_memory g_region2Src = map byte_of ''PSoC4_HVMS-DMADC''"
  by (simp_all add: initial_memory_def string_init_def array_init_def DMAC_TRANSFER_SIZE_def)

lemma main_output:
  assumes run: "main fuel result env = IdleLoop s"
  shows "uart s =
       map byte_of BANNER @
       map byte_of ''PING source = '' @ map byte_of ''PSoC4_HVMS-DMADC'' @ map byte_of CRLF @
       map byte_of ''PING destination = '' @ locals s dstdata1 @ map byte_of CRLF @
       map byte_of ''PONG source = '' @ rev (map byte_of ''PSoC4_HVMS-DMADC'') @ map byte_of CRLF @
       map byte_of ''PONG destination = '' @ rev (locals s dstdata2) @ map byte_of CRLF @
       map byte_of (''- DMA transfer is completed. '' @ CRLF)"
    and "final_line (uart s) = map byte_of ''- DMA transfer is completed. ''"
proof -
  note m = main_idle [OF run]
  show u: "uart s =
       map byte_of BANNER @
       map byte_of ''PING source = '' @ map byte_of ''PSoC4_HVMS-DMADC'' @ map byte_of CRLF @
       map byte_of ''PING destination = '' @ locals s dstdata1 @ map byte_of CRLF @
       map byte_of ''PONG source = '' @ rev (map byte_of ''PSoC4_HVMS-DMADC'') @ map byte_of CRLF @
       map byte_of ''PONG destination = '' @ rev (locals s dstdata2) @ map byte_of CRLF @
       map byte_of (''- DMA transfer is completed. '' @ CRLF)"
    using m(2) by (simp only: source_bytes)
  define p where "p = map byte_of BANNER @
       map byte_of ''PING source = '' @ map byte_of ''PSoC4_HVMS-DMADC'' @ map byte_of CRLF @
       map byte_of ''PING destination = '' @ locals s dstdata1 @ map byte_of CRLF @
       map byte_of ''PONG source = '' @ rev (map byte_of ''PSoC4_HVMS-DMADC'') @ map byte_of CRLF @
       map byte_of ''PONG destination = '' @ rev (locals s dstdata2)"
  have "uart s = p @ map byte_of CRLF @ map byte_of (''- DMA transfer is completed. '' @ CRLF)"
    unfolding u p_def by (simp only: append_assoc)
  then show "final_line (uart s) = map byte_of ''- DMA transfer is completed. ''"
    by (simp only: final_line_completed)
qed

text \<open>
  A run of \<open>main\<close>: \<open>cybsp_init\<close> succeeds, the first poll comes 5 controller
  steps after the trigger, and 40 more steps elapse while the next string is sent.
\<close>

lemma sample_run:
  "wait_transfer 1 (triggered_state [0, 0, 0, 0, 5, 40]) =
     Inr (tick (triggered_state [0, 0, 0, 0, 5, 40]))"
  "main 1 CY_RSLT_SUCCESS [0, 0, 0, 0, 5, 40] =
     IdleLoop (report (tick (triggered_state [0, 0, 0, 0, 5, 40])))"
  "snapshot (hw (tick (triggered_state [0, 0, 0, 0, 5, 40]))) =
     (Transferring CY_DMAC_DESCRIPTOR_PING 5, Pending, Pending,
      map byte_of ''PSoC4_HVMS-DMADC'', map byte_of ''PSoC4'' @ replicate 11 0,
      map byte_of ''PSoC4_HVMS-DMADC'', replicate 16 0)"
proof -
  show s: "snapshot (hw (tick (triggered_state [0, 0, 0, 0, 5, 40]))) =
     (Transferring CY_DMAC_DESCRIPTOR_PING 5, Pending, Pending,
      map byte_of ''PSoC4_HVMS-DMADC'', map byte_of ''PSoC4'' @ replicate 11 0,
      map byte_of ''PSoC4_HVMS-DMADC'', replicate 16 0)"
    by (simp only: tick_triggered snapshot_5)
  then have p: "response (pong (hw (tick (triggered_state [0, 0, 0, 0, 5, 40])))) = Pending"
    by (simp add: snapshot_def)
  from main_first_poll [OF p, of 0]
  show "wait_transfer 1 (triggered_state [0, 0, 0, 0, 5, 40]) =
     Inr (tick (triggered_state [0, 0, 0, 0, 5, 40]))"
    and "main 1 CY_RSLT_SUCCESS [0, 0, 0, 0, 5, 40] =
     IdleLoop (report (tick (triggered_state [0, 0, 0, 0, 5, 40])))"
    by simp_all
qed

lemma sample_run_destinations:
  "locals (report (tick (triggered_state [0, 0, 0, 0, 5, 40]))) dstdata1 =
     map byte_of ''PSoC4_HVMS-DMADC''"
  "locals (report (tick (triggered_state [0, 0, 0, 0, 5, 40]))) dstdata2 =
     map byte_of ''PSoC4_HVMS-DMADC''"
proof -
  define w where "w = tick (triggered_state [0, 0, 0, 0, 5, 40])"
  have r: "ready w" unfolding w_def using ready_triggered by (rule ready_tick)
  have "hw (Cy_SCB_UART_PutString ''PING source = '' w) =
          elapse 40 (elapse 5 (Cy_TrigMux_SwTrigger armed_hardware))"
    by (simp add: w_def tick_def [of "tick _"] tick_triggered triggered_state_fields)
  also have "\<dots> = elapse (5 + 40) (Cy_TrigMux_SwTrigger armed_hardware)"
    by (simp only: elapse_add)
  also have "\<dots> = elapse 34 (Cy_TrigMux_SwTrigger armed_hardware)"
    by (rule elapse_past_34) simp
  finally have h: "hw (Cy_SCB_UART_PutString ''PING source = '' w) =
      elapse 34 (Cy_TrigMux_SwTrigger armed_hardware)" .
  have q: "quiescent (hw (Cy_SCB_UART_PutString ''PING source = '' w))"
    by (simp only: h) (simp add: quiescent_def engine_34)
  from report_result(6) [OF r q]
  have "locals (report w) dstdata1 =
          mem (elapse 34 (Cy_TrigMux_SwTrigger armed_hardware)) g_region1Dst \<and>
        locals (report w) dstdata2 =
          mem (elapse 34 (Cy_TrigMux_SwTrigger armed_hardware)) g_region2Dst"
    by (simp only: h)
  then show "locals (report (tick (triggered_state [0, 0, 0, 0, 5, 40]))) dstdata1 =
     map byte_of ''PSoC4_HVMS-DMADC''"
    and "locals (report (tick (triggered_state [0, 0, 0, 0, 5, 40]))) dstdata2 =
     map byte_of ''PSoC4_HVMS-DMADC''"
    by (simp_all add: engine_34 w_def)
qed

subsection \<open>The print loops\<close>

lemma print_blocks:
  assumes "ready s"
  shows "uart (print_ping_src s) = uart s @ mem (hw s) g_region1Src"
    and "uart (print_ping_dst s) = uart s @ locals (print_ping_dst s) dstdata1"
    and "uart (print_pong_src s) = uart s @ rev (mem (hw s) g_region2Src)"
    and "uart (print_pong_dst s) = uart s @ rev (locals (print_pong_dst s) dstdata2)"
    and "quiescent (hw s) \<Longrightarrow> locals (print_ping_dst s) dstdata1 = mem (hw s) g_region1Dst"
    and "quiescent (hw s) \<Longrightarrow> locals (print_pong_dst s) dstdata2 = mem (hw s) g_region2Dst"
proof -
  have m: "mem (hw s) g_region1Src = initial_memory g_region1Src"
    "mem (hw s) g_region2Src = initial_memory g_region2Src"
    and z: "sized (hw s)"
    using assms by (simp_all add: ready_def)
  note a = forward_block [OF assms, where r = g_region1Src and l = srcdata1,
      folded print_ping_src_fold]
  note b = forward_block [OF assms, where r = g_region1Dst and l = dstdata1,
      folded print_ping_dst_fold]
  note c = backward_block [OF assms, where r = g_region2Src and l = srcdata2,
      folded print_pong_src_fold]
  note d = backward_block [OF assms, where r = g_region2Dst and l = dstdata2,
      folded print_pong_dst_fold]
  have "locals (print_ping_src s) srcdata1 = initial_memory g_region1Src"
    using src_stable(1) [OF assms] length_initial_memory by (rule a(5))
  with a(2) show "uart (print_ping_src s) = uart s @ mem (hw s) g_region1Src"
    by (simp only: m)
  have "locals (print_pong_src s) srcdata2 = initial_memory g_region2Src"
    using src_stable(2) [OF assms] length_initial_memory by (rule c(5))
  with c(2) show "uart (print_pong_src s) = uart s @ rev (mem (hw s) g_region2Src)"
    by (simp only: m)
  show "uart (print_ping_dst s) = uart s @ locals (print_ping_dst s) dstdata1" by (rule b(2))
  show "uart (print_pong_dst s) = uart s @ rev (locals (print_pong_dst s) dstdata2)"
    by (rule d(2))
  show "locals (print_ping_dst s) dstdata1 = mem (hw s) g_region1Dst" if "quiescent (hw s)"
    using quiescent_stable [OF that] z by (intro b(5)) (simp_all add: sized_def)
  show "locals (print_pong_dst s) dstdata2 = mem (hw s) g_region2Dst" if "quiescent (hw s)"
    using quiescent_stable [OF that] z by (intro d(5)) (simp_all add: sized_def)
qed

subsection \<open>The moments at which main reads\<close>

lemma sum_list_take_Suc:
  "sum_list (take (Suc j) xs) =
     sum_list (take j xs) + (case drop j xs of [] \<Rightarrow> 0 | n # _ \<Rightarrow> (n :: nat))"
proof (induction xs arbitrary: j)
  case Nil
  then show ?case by simp
next
  case (Cons x xs)
  then show ?case by (cases j) simp_all
qed

lemma clocked_triggered: "clocked env 0 (triggered_state env)"
  by (simp add: clocked_def transfer_at_def transfer_after_def triggered_state_fields)

lemma tl_drop_Suc: "tl (drop j xs) = drop (Suc j) xs"
  by (simp add: drop_Suc tl_drop)

lemma clocked_tick: "clocked env j s \<Longrightarrow> clocked env (Suc j) (tick s)"
proof -
  assume c: "clocked env j s"
  define xs where "xs = drop 4 env"
  from c have h: "hw s = elapse (sum_list (take j xs)) (hw (triggered_state env))"
    and q: "sched s = drop j xs"
    by (simp_all only: clocked_def transfer_at_def transfer_after_def xs_def)
  have "hw (tick s) = elapse (sum_list (take (Suc j) xs)) (hw (triggered_state env))"
    by (simp add: tick_def h q sum_list_take_Suc elapse_add)
  moreover have "sched (tick s) = drop (Suc j) xs"
    by (simp only: tick_fields q tl_drop_Suc)
  ultimately show ?thesis
    by (simp only: clocked_def transfer_at_def transfer_after_def xs_def simp_thms)
qed

lemma clocked_PutString:
  "clocked env j s \<Longrightarrow> clocked env (Suc j) (Cy_SCB_UART_PutString str s)"
  using clocked_tick [of env j s] by (simp add: clocked_def)

lemma clocked_read_and_put:
  "clocked env j s \<Longrightarrow> clocked env (Suc j) (read_and_put r l i s)"
  using clocked_tick [of env j s] by (simp add: clocked_def read_and_put_fields)

lemma fold_read_and_put_clocked:
  assumes "ready s" and "clocked env j s" and "distinct js" and "\<forall>i\<in>set js. i < 16"
  shows "clocked env (j + length js) (fold (read_and_put r l) js s) \<and>
         (\<forall>k<length js. locals (fold (read_and_put r l) js s) l ! (js ! k) =
                           mem (transfer_at env (j + k)) r ! (js ! k))"
  using assms(3,4)
proof (induction js rule: rev_induct)
  case Nil
  with assms(2) show ?case by simp
next
  case (snoc i js)
  define s1 where "s1 = fold (read_and_put r l) js s"
  define s2 where "s2 = read_and_put r l i s1"
  have s2: "fold (read_and_put r l) (js @ [i]) s = s2"
    by (simp add: s1_def s2_def)
  from snoc.prems have d: "distinct js" and inn: "i \<notin> set js"
    and b: "\<forall>i\<in>set js. i < 16" and i: "i < 16" by simp_all
  from snoc.IH [OF d b]
  have c1: "clocked env (j + length js) s1"
    and v1: "\<forall>k<length js. locals s1 l ! (js ! k) = mem (transfer_at env (j + k)) r ! (js ! k)"
    by (simp_all add: s1_def)
  have r1: "ready s1"
    unfolding s1_def using fold_read_and_put [OF assms(1) d b] by blast
  have len: "length (locals s1 l) = 16" using r1 by (rule length_locals)
  have h1: "hw s1 = transfer_at env (j + length js)" using c1 by (simp add: clocked_def)
  have l2: "locals s2 l = (locals s1 l)[i := mem (transfer_at env (j + length js)) r ! i]"
    by (simp add: s2_def read_and_put_fields h1)
  have c2: "clocked env (j + length (js @ [i])) s2"
    unfolding s2_def using clocked_read_and_put [OF c1] by simp
  have v2: "\<forall>k<length (js @ [i]). locals s2 l ! ((js @ [i]) ! k) =
              mem (transfer_at env (j + k)) r ! ((js @ [i]) ! k)"
  proof (intro allI impI)
    fix k assume k: "k < length (js @ [i])"
    show "locals s2 l ! ((js @ [i]) ! k) = mem (transfer_at env (j + k)) r ! ((js @ [i]) ! k)"
    proof (cases "k < length js")
      case True
      then have "js ! k \<in> set js" by simp
      with inn have ne: "i \<noteq> js ! k" by auto
      from True have "(js @ [i]) ! k = js ! k" by (simp add: nth_append)
      with ne v1 True show ?thesis by (simp add: l2)
    next
      case False
      with k have "k = length js" by simp
      with i len show ?thesis by (simp add: l2)
    qed
  qed
  from c2 v2 show ?case by (simp only: s2 simp_thms)
qed

lemma forward_reads:
  assumes "ready s" and "clocked env j s"
  shows "clocked env (j + 16) (fold (read_and_put r l) [0..<16] s)"
    and "locals (fold (read_and_put r l) [0..<16] s) l =
           map (\<lambda>i. mem (transfer_at env (j + i)) r ! i) [0..<16]"
proof -
  have d: "distinct [0..<16::nat]" and b: "\<forall>i\<in>set [0..<16::nat]. i < 16" by simp_all
  note core = fold_read_and_put_clocked [OF assms d b, of r l]
  show "clocked env (j + 16) (fold (read_and_put r l) [0..<16] s)" using core by simp
  have "ready (fold (read_and_put r l) [0..<16] s)"
    using fold_read_and_put [OF assms(1) d b] by blast
  then have len: "length (locals (fold (read_and_put r l) [0..<16] s) l) = 16"
    by (rule length_locals)
  show "locals (fold (read_and_put r l) [0..<16] s) l =
           map (\<lambda>i. mem (transfer_at env (j + i)) r ! i) [0..<16]"
  proof (rule nth_equalityI)
    show "length (locals (fold (read_and_put r l) [0..<16] s) l) =
        length (map (\<lambda>i. mem (transfer_at env (j + i)) r ! i) [0..<16])"
      using len by simp
  next
    fix i assume "i < length (locals (fold (read_and_put r l) [0..<16] s) l)"
    with len have i: "i < 16" by simp
    with core have "locals (fold (read_and_put r l) [0..<16] s) l ! ([0..<16] ! i) =
        mem (transfer_at env (j + i)) r ! ([0..<16] ! i)" by simp
    with i show "locals (fold (read_and_put r l) [0..<16] s) l ! i =
        map (\<lambda>i. mem (transfer_at env (j + i)) r ! i) [0..<16] ! i" by simp
  qed
qed

lemma backward_reads:
  assumes "ready s" and "clocked env j s"
  shows "clocked env (j + 16) (fold (read_and_put r l) (rev [0..<16]) s)"
    and "rev (locals (fold (read_and_put r l) (rev [0..<16]) s) l) =
           map (\<lambda>k. mem (transfer_at env (j + k)) r ! (15 - k)) [0..<16]"
proof -
  have d: "distinct (rev [0..<16::nat])" and b: "\<forall>i\<in>set (rev [0..<16::nat]). i < 16"
    by simp_all
  note core = fold_read_and_put_clocked [OF assms d b, of r l]
  show "clocked env (j + 16) (fold (read_and_put r l) (rev [0..<16]) s)" using core by simp
  have "ready (fold (read_and_put r l) (rev [0..<16]) s)"
    using fold_read_and_put [OF assms(1) d b] by blast
  then have len: "length (locals (fold (read_and_put r l) (rev [0..<16]) s) l) = 16"
    by (rule length_locals)
  show "rev (locals (fold (read_and_put r l) (rev [0..<16]) s) l) =
           map (\<lambda>k. mem (transfer_at env (j + k)) r ! (15 - k)) [0..<16]"
  proof (rule nth_equalityI)
    show "length (rev (locals (fold (read_and_put r l) (rev [0..<16]) s) l)) =
        length (map (\<lambda>k. mem (transfer_at env (j + k)) r ! (15 - k)) [0..<16])"
      using len by simp
  next
    fix k assume "k < length (rev (locals (fold (read_and_put r l) (rev [0..<16]) s) l))"
    with len have k: "k < 16" by simp
    then have idx: "rev [0..<16] ! k = 15 - k" by (simp add: rev_nth)
    from core k have "locals (fold (read_and_put r l) (rev [0..<16]) s) l ! (rev [0..<16] ! k) =
        mem (transfer_at env (j + k)) r ! (rev [0..<16] ! k)" by simp
    with k len show "rev (locals (fold (read_and_put r l) (rev [0..<16]) s) l) ! k =
        map (\<lambda>k. mem (transfer_at env (j + k)) r ! (15 - k)) [0..<16] ! k"
      by (simp add: rev_nth idx)
  qed
qed


lemma report_reads:
  assumes rdy: "ready s" and clk: "clocked env j s"
  shows "locals (report s) dstdata1 =
           map (\<lambda>i. mem (transfer_at env (j + 19 + i)) g_region1Dst ! i) [0..<16]"
    and "rev (locals (report s) dstdata2) =
           map (\<lambda>k. mem (transfer_at env (j + 55 + k)) g_region2Dst ! (15 - k)) [0..<16]"
    and "clocked env (j + 73) (report s)"
proof -
  define s1 where "s1 = Cy_SCB_UART_PutString ''PING source = '' s"
  define s2 where "s2 = print_ping_src s1"
  define s3 where "s3 = Cy_SCB_UART_PutString ''PING destination = '' (Cy_SCB_UART_PutString CRLF s2)"
  define s4 where "s4 = print_ping_dst s3"
  define s5 where "s5 = Cy_SCB_UART_PutString ''PONG source = '' (Cy_SCB_UART_PutString CRLF s4)"
  define s6 where "s6 = print_pong_src s5"
  define s7 where "s7 = Cy_SCB_UART_PutString ''PONG destination = '' (Cy_SCB_UART_PutString CRLF s6)"
  define s8 where "s8 = print_pong_dst s7"
  define s9 where "s9 = Cy_SCB_UART_PutString (''- DMA transfer is completed. '' @ CRLF)
                          (Cy_SCB_UART_PutString CRLF s8)"
  have rep: "report s = s9"
    by (simp add: report_def s1_def s2_def s3_def s4_def s5_def s6_def s7_def s8_def s9_def)
  have r1: "ready s1" unfolding s1_def using rdy by (rule ready_PutString)
  have c1: "clocked env (Suc j) s1" unfolding s1_def using clk by (rule clocked_PutString)
  note a2 = forward_block [OF r1, where r = g_region1Src and l = srcdata1,
      folded print_ping_src_fold s2_def]
  note t2 = forward_reads [OF r1 c1, where r = g_region1Src and l = srcdata1,
      folded print_ping_src_fold s2_def]
  have r3: "ready s3" unfolding s3_def using a2(1) by (intro ready_PutString)
  have "clocked env (Suc (Suc (Suc j + 16))) s3"
    unfolding s3_def by (intro clocked_PutString t2(1))
  moreover have "Suc (Suc (Suc j + 16)) = j + 19" by simp
  ultimately have c3: "clocked env (j + 19) s3" by (simp only:)
  note a4 = forward_block [OF r3, where r = g_region1Dst and l = dstdata1,
      folded print_ping_dst_fold s4_def]
  note t4 = forward_reads [OF r3 c3, where r = g_region1Dst and l = dstdata1,
      folded print_ping_dst_fold s4_def]
  have r5: "ready s5" unfolding s5_def using a4(1) by (intro ready_PutString)
  have "clocked env (Suc (Suc (j + 19 + 16))) s5"
    unfolding s5_def by (intro clocked_PutString t4(1))
  moreover have "Suc (Suc (j + 19 + 16)) = j + 37" by simp
  ultimately have c5: "clocked env (j + 37) s5" by (simp only:)
  note a6 = backward_block [OF r5, where r = g_region2Src and l = srcdata2,
      folded print_pong_src_fold s6_def]
  note t6 = backward_reads [OF r5 c5, where r = g_region2Src and l = srcdata2,
      folded print_pong_src_fold s6_def]
  have r7: "ready s7" unfolding s7_def using a6(1) by (intro ready_PutString)
  have "clocked env (Suc (Suc (j + 37 + 16))) s7"
    unfolding s7_def by (intro clocked_PutString t6(1))
  moreover have "Suc (Suc (j + 37 + 16)) = j + 55" by simp
  ultimately have c7: "clocked env (j + 55) s7" by (simp only:)
  note a8 = backward_block [OF r7, where r = g_region2Dst and l = dstdata2,
      folded print_pong_dst_fold s8_def]
  note t8 = backward_reads [OF r7 c7, where r = g_region2Dst and l = dstdata2,
      folded print_pong_dst_fold s8_def]
  have "clocked env (Suc (Suc (j + 55 + 16))) s9"
    unfolding s9_def by (intro clocked_PutString t8(1))
  moreover have "Suc (Suc (j + 55 + 16)) = j + 73" by simp
  ultimately have c9: "clocked env (j + 73) s9" by (simp only:)
  have dst1: "locals s9 dstdata1 = locals s4 dstdata1"
    using a6(3) [where l' = dstdata1] a8(3) [where l' = dstdata1]
    by (simp add: s9_def s7_def s5_def)
  have dst2: "locals s9 dstdata2 = locals s8 dstdata2"
    by (simp add: s9_def)
  show "locals (report s) dstdata1 =
           map (\<lambda>i. mem (transfer_at env (j + 19 + i)) g_region1Dst ! i) [0..<16]"
    using t4(2) by (simp only: rep dst1)
  show "rev (locals (report s) dstdata2) =
           map (\<lambda>k. mem (transfer_at env (j + 55 + k)) g_region2Dst ! (15 - k)) [0..<16]"
    using t8(2) by (simp only: rep dst2)
  show "clocked env (j + 73) (report s)" using c9 by (simp only: rep)
qed

lemma main_idle_first_poll:
  assumes "main fuel result env = IdleLoop s"
  shows "s = report (tick (triggered_state env))"
proof -
  from report_starts_while_pong_pending [OF assms]
  obtain w where w: "wait_transfer fuel (triggered_state env) = Inr w" and s: "s = report w"
    by blast
  from w obtain f where f: "fuel = Suc f" by (cases fuel) simp_all
  have "w = tick (triggered_state env)"
  proof (cases "response (pong (hw (tick (triggered_state env))))")
    case Pending
    with w show ?thesis
      by (simp add: f Let_def Cy_DMAC_Descriptor_GetResponse_def descr_def)
  next
    case Done
    from wait_transfer_spins [OF Done, of f] obtain x
      where "wait_transfer f (tick (triggered_state env)) = Inl x" ..
    with w Done show ?thesis
      by (simp add: f Let_def Cy_DMAC_Descriptor_GetResponse_def descr_def)
  qed
  with s show ?thesis by simp
qed

lemma transfer_at_settled:
  assumes "channel (transfer_at env a) = Completed" and "a \<le> b"
  shows "transfer_at env b = transfer_at env a"
proof -
  define xs where "xs = drop 4 env"
  from assms(2) have b: "b = a + (b - a)" by simp
  have "take b xs = take a xs @ take (b - a) (drop a xs)"
    by (subst b) (rule take_add)
  then have sum: "sum_list (take b xs) = sum_list (take a xs) + sum_list (take (b - a) (drop a xs))"
    by simp
  have q: "quiescent (transfer_at env a)" using assms(1) by (simp add: quiescent_def)
  have "transfer_at env b =
      elapse (sum_list (take (b - a) (drop a xs))) (transfer_at env a)"
    by (simp only: transfer_at_def transfer_after_def xs_def [symmetric] sum elapse_add)
  also have "\<dots> = transfer_at env a" using q by (rule elapse_quiescent)
  finally show ?thesis .
qed

lemma main_reads:
  assumes run: "main fuel result env = IdleLoop s"
  shows "locals s dstdata1 = ping_destination_read env"
    and "rev (locals s dstdata2) = pong_destination_read env"
    and "hw s = transfer_at env 74"
proof -
  have s: "s = report (tick (triggered_state env))" using run by (rule main_idle_first_poll)
  have r: "ready (tick (triggered_state env))" using ready_triggered by (rule ready_tick)
  have c: "clocked env 1 (tick (triggered_state env))"
    using clocked_tick [OF clocked_triggered] by (simp only: One_nat_def)
  note rd = report_reads [OF r c, folded s]
  have n: "(1::nat) + 19 = 20" "(1::nat) + 55 = 56" "(1::nat) + 73 = 74" by simp_all
  show "locals s dstdata1 = ping_destination_read env"
    using rd(1) by (simp only: ping_destination_read_def n)
  show "rev (locals s dstdata2) = pong_destination_read env"
    using rd(2) by (simp only: pong_destination_read_def n)
  show "hw s = transfer_at env 74" using rd(3) by (simp only: clocked_def n)
qed

lemma destination_reads_settled:
  assumes "channel (transfer_at env 20) = Completed"
  shows "ping_destination_read env = mem (transfer_at env 74) g_region1Dst"
    and "pong_destination_read env = rev (mem (transfer_at env 74) g_region2Dst)"
proof -
  have same: "transfer_at env (20 + i) = transfer_at env 20"
    "transfer_at env (56 + i) = transfer_at env 20" for i
    using assms by (rule transfer_at_settled, simp)+
  have last: "transfer_at env 74 = transfer_at env 20"
    using assms by (rule transfer_at_settled) simp
  have inv: "chain_inv (transfer_at env 20)"
    by (simp add: transfer_at_def chain_inv_transfer_after)
  then have len: "length (mem (transfer_at env 20) g_region1Dst) = 16"
    "length (mem (transfer_at env 20) g_region2Dst) = 16"
    by (simp_all add: chain_inv_def sized_def)
  have "ping_destination_read env = map ((!) (mem (transfer_at env 20) g_region1Dst)) [0..<16]"
    by (simp only: ping_destination_read_def same)
  also have "\<dots> = mem (transfer_at env 20) g_region1Dst" using len(1) by (rule nth_upto_16)
  finally show "ping_destination_read env = mem (transfer_at env 74) g_region1Dst"
    by (simp only: last)
  have "pong_destination_read env =
      map (\<lambda>k. mem (transfer_at env 20) g_region2Dst ! (15 - k)) [0..<16]"
    by (simp only: pong_destination_read_def same)
  also have "\<dots> = rev (mem (transfer_at env 20) g_region2Dst)"
  proof (rule nth_equalityI)
    show "length (map (\<lambda>k. mem (transfer_at env 20) g_region2Dst ! (15 - k)) [0..<16]) =
        length (rev (mem (transfer_at env 20) g_region2Dst))"
      using len(2) by simp
  next
    fix k assume "k < length (map (\<lambda>k. mem (transfer_at env 20) g_region2Dst ! (15 - k)) [0..<16])"
    then have "k < 16" by simp
    with len(2) show "map (\<lambda>k. mem (transfer_at env 20) g_region2Dst ! (15 - k)) [0..<16] ! k =
        rev (mem (transfer_at env 20) g_region2Dst) ! k"
      by (simp add: rev_nth)
  qed
  finally show "pong_destination_read env = rev (mem (transfer_at env 74) g_region2Dst)"
    by (simp only: last)
qed

subsection \<open>A run in which the report overtakes the transfer\<close>

text \<open>
  The controller makes no step until the PING destination loop has read index 0, and
  completes the chain while that iteration waits for the transmitter.
\<close>

lemma upt_16: "[0..<16] = [0, 1, 2, 3, 4, 5, 6, 7, 8, 9, 10, 11, 12, 13, 14, 15 :: nat]"
  by code_simp

lemma in_flight_sum:
  "k \<le> 20 \<Longrightarrow> sum_list (take k (drop 4 (replicate 24 0 @ [34 :: nat]))) = 0"
  "21 \<le> k \<Longrightarrow> sum_list (take k (drop 4 (replicate 24 0 @ [34 :: nat]))) = 34"
  by (simp_all add: take_Cons' sum_list_replicate)

lemma transfer_at_eq:
  "transfer_at env k =
     elapse (sum_list (take k (drop 4 env))) (Cy_TrigMux_SwTrigger armed_hardware)"
  by (simp only: transfer_at_def transfer_after_eq)

lemma in_flight_clock:
  "k \<le> 20 \<Longrightarrow> transfer_at (replicate 24 0 @ [34]) k = Cy_TrigMux_SwTrigger armed_hardware"
  "21 \<le> k \<Longrightarrow>
     transfer_at (replicate 24 0 @ [34]) k = elapse 34 (Cy_TrigMux_SwTrigger armed_hardware)"
  by (simp_all only: transfer_at_eq in_flight_sum elapse.simps)

lemma snapshot_0:
  "snapshot (Cy_TrigMux_SwTrigger armed_hardware) =
     (Transferring CY_DMAC_DESCRIPTOR_PING 0, Pending, Pending,
      map byte_of ''PSoC4_HVMS-DMADC'', replicate 16 0,
      map byte_of ''PSoC4_HVMS-DMADC'', replicate 16 0)"
  by code_simp

lemma engine_0:
  "channel (Cy_TrigMux_SwTrigger armed_hardware) = Transferring CY_DMAC_DESCRIPTOR_PING 0"
  "response (pong (Cy_TrigMux_SwTrigger armed_hardware)) = Pending"
  "mem (Cy_TrigMux_SwTrigger armed_hardware) g_region1Dst = replicate 16 0"
  "mem (Cy_TrigMux_SwTrigger armed_hardware) g_region2Dst = replicate 16 0"
  using snapshot_0 by (simp_all add: snapshot_def)

lemma in_flight_poll:
  "response (pong (hw (tick (triggered_state (replicate 24 0 @ [34]))))) = Pending"
proof -
  have "clocked (replicate 24 0 @ [34]) (Suc 0) (tick (triggered_state (replicate 24 0 @ [34])))"
    using clocked_triggered by (rule clocked_tick)
  then have "hw (tick (triggered_state (replicate 24 0 @ [34]))) =
      Cy_TrigMux_SwTrigger armed_hardware"
    by (simp add: clocked_def in_flight_clock)
  then show ?thesis by (simp only: engine_0)
qed

lemma in_flight_run:
  "main 1 CY_RSLT_SUCCESS (replicate 24 0 @ [34]) =
     IdleLoop (report (tick (triggered_state (replicate 24 0 @ [34]))))"
  using main_first_poll(2) [OF in_flight_poll, of 0] by simp

lemma in_flight_reads:
  "ping_destination_read (replicate 24 0 @ [34]) = 0 # map byte_of ''SoC4_HVMS-DMADC''"
  "pong_destination_read (replicate 24 0 @ [34]) = map byte_of ''CDAMD-SMVH_4CoSP''"
  by (simp_all add: ping_destination_read_def pong_destination_read_def upt_16
      in_flight_clock engine_0 engine_34 del: upt.simps)

lemma ping_destination_never_held:
  "0 # map byte_of ''SoC4_HVMS-DMADC'' \<notin>
     set (contents_over 34 (Cy_TrigMux_SwTrigger armed_hardware) g_region1Dst)"
  by code_simp

lemma in_flight_output:
  "uart (report (tick (triggered_state (replicate 24 0 @ [34])))) =
     map byte_of CLEAR_SCREEN @ map byte_of BANNER_BLOCK @
     map byte_of ''PING source = '' @ map byte_of ''PSoC4_HVMS-DMADC'' @ map byte_of CRLF @
     map byte_of ''PING destination = '' @ (0 # map byte_of ''SoC4_HVMS-DMADC'') @
     map byte_of CRLF @
     map byte_of ''PONG source = '' @ map byte_of ''CDAMD-SMVH_4CoSP'' @ map byte_of CRLF @
     map byte_of ''PONG destination = '' @ map byte_of ''CDAMD-SMVH_4CoSP'' @ map byte_of CRLF @
     map byte_of (''- DMA transfer is completed. '' @ CRLF)"
proof -
  note run = in_flight_run
  have r: "rev (map byte_of ''PSoC4_HVMS-DMADC'') = map byte_of ''CDAMD-SMVH_4CoSP''"
    by simp
  from main_output(1) [OF run] show ?thesis
    by (simp only: main_reads(1,2) [OF run] in_flight_reads r BANNER_def map_append append_assoc)
qed

lemma sample_clock:
  "20 \<le> k \<Longrightarrow>
     transfer_at [0, 0, 0, 0, 5, 40] k = elapse 34 (Cy_TrigMux_SwTrigger armed_hardware)"
proof -
  assume "20 \<le> k"
  then have "sum_list (take k (drop 4 [0, 0, 0, 0, 5, 40 :: nat])) = 45"
    by (simp add: take_Cons')
  then have "transfer_at [0, 0, 0, 0, 5, 40] k =
      elapse 45 (Cy_TrigMux_SwTrigger armed_hardware)"
    by (simp only: transfer_at_eq)
  also have "\<dots> = elapse 34 (Cy_TrigMux_SwTrigger armed_hardware)"
    by (rule elapse_past_34) simp
  finally show ?thesis .
qed

section \<open>The claims\<close>

text \<open>
  C1. The claim: the program spins on the completion status of the pong descriptor and
  goes on to print the result blocks only after it has read that status as Done.
  The loop of line 147 spins while the status equals \<open>CY_DMAC_DONE\<close>, so it is left on
  the first read that is not Done. In the run below the first read comes 5 controller
  steps after the trigger: ping has copied 5 bytes, both completion flags read Pending,
  the loop exits at once and \<open>main\<close> goes on to the report.
\<close>

theorem wait_exits_while_pong_pending:
  "wait_transfer 1 (triggered_state [0, 0, 0, 0, 5, 40]) =
     Inr (tick (triggered_state [0, 0, 0, 0, 5, 40])) \<and>
   Cy_DMAC_Descriptor_GetResponse CY_DMAC_DESCRIPTOR_PONG
     (hw (tick (triggered_state [0, 0, 0, 0, 5, 40]))) = Pending \<and>
   channel (hw (tick (triggered_state [0, 0, 0, 0, 5, 40]))) =
     Transferring CY_DMAC_DESCRIPTOR_PING 5 \<and>
   mem (hw (tick (triggered_state [0, 0, 0, 0, 5, 40]))) g_region2Dst = replicate 16 0 \<and>
   main 1 CY_RSLT_SUCCESS [0, 0, 0, 0, 5, 40] =
     IdleLoop (report (tick (triggered_state [0, 0, 0, 0, 5, 40])))"
  using sample_run
  by (simp add: snapshot_def Cy_DMAC_Descriptor_GetResponse_def descr_def)

text \<open>
  C2. The claim: a run that reaches the report prints the clear-screen sequence, the
  banner, the four labelled blocks (PING forward, PONG reversed, the destination blocks
  being the bytes of the destination regions), each followed by a newline, and ends
  with the line "- DMA transfer is completed.".
  Two things stand against it. The string of line 193 has a space before its CR LF, so
  the last line is not that literal. And the wait loop of line 147 lets the report start
  while the transfer runs: in the run below the controller makes no step until the PING
  destination loop has read index 0 and completes the chain during that iteration, so
  the block printed after "PING destination = " is a zero byte followed by
  "SoC4_HVMS-DMADC", which the ping destination holds at none of its 35 states; at the
  end it holds "PSoC4_HVMS-DMADC".
\<close>

theorem console_output_counterexample:
  "final_line (uart (final_state (main 1 CY_RSLT_SUCCESS (replicate 24 0 @ [34])))) \<noteq>
     map byte_of ''- DMA transfer is completed.'' \<and>
   uart (final_state (main 1 CY_RSLT_SUCCESS (replicate 24 0 @ [34]))) =
     map byte_of CLEAR_SCREEN @ map byte_of BANNER_BLOCK @
     map byte_of ''PING source = '' @ map byte_of ''PSoC4_HVMS-DMADC'' @ map byte_of CRLF @
     map byte_of ''PING destination = '' @ (0 # map byte_of ''SoC4_HVMS-DMADC'') @
     map byte_of CRLF @
     map byte_of ''PONG source = '' @ map byte_of ''CDAMD-SMVH_4CoSP'' @ map byte_of CRLF @
     map byte_of ''PONG destination = '' @ map byte_of ''CDAMD-SMVH_4CoSP'' @ map byte_of CRLF @
     map byte_of (''- DMA transfer is completed. '' @ CRLF) \<and>
   0 # map byte_of ''SoC4_HVMS-DMADC'' \<notin>
     set (contents_over 34 (hw (triggered_state (replicate 24 0 @ [34]))) g_region1Dst) \<and>
   mem (hw (final_state (main 1 CY_RSLT_SUCCESS (replicate 24 0 @ [34])))) g_region1Dst =
     map byte_of ''PSoC4_HVMS-DMADC''"
proof -
  note run = in_flight_run
  have f: "final_state (main 1 CY_RSLT_SUCCESS (replicate 24 0 @ [34])) =
      report (tick (triggered_state (replicate 24 0 @ [34])))"
    by (simp only: run final_state.simps)
  have "final_line (uart (report (tick (triggered_state (replicate 24 0 @ [34]))))) =
      map byte_of ''- DMA transfer is completed. ''"
    using run by (rule main_output(2))
  then have a: "final_line (uart (report (tick (triggered_state (replicate 24 0 @ [34]))))) \<noteq>
      map byte_of ''- DMA transfer is completed.''"
    by (simp add: byte_of_def)
  have "hw (report (tick (triggered_state (replicate 24 0 @ [34])))) =
      elapse 34 (Cy_TrigMux_SwTrigger armed_hardware)"
    using main_reads(3) [OF run] by (simp add: in_flight_clock)
  then have b: "mem (hw (report (tick (triggered_state (replicate 24 0 @ [34]))))) g_region1Dst =
      map byte_of ''PSoC4_HVMS-DMADC''"
    by (simp only: engine_34)
  have c: "0 # map byte_of ''SoC4_HVMS-DMADC'' \<notin>
     set (contents_over 34 (hw (triggered_state (replicate 24 0 @ [34]))) g_region1Dst)"
    unfolding triggered_state_fields by (rule ping_destination_never_held)
  from a in_flight_output c b show ?thesis unfolding f by (intro conjI)
qed

text \<open>
  C2, as amended: in every run that reaches the report the console has received, in
  order, the clear-screen sequence, the banner block, "PING source = " and the 16 source
  bytes, CR LF, "PING destination = " and 16 bytes, CR LF, "PONG source = " and the 16
  source bytes in reverse order, CR LF, "PONG destination = " and 16 bytes, CR LF, and
  "- DMA transfer is completed. " with its trailing space, CR LF; that string is the last
  line. When the transfer has completed before the first destination byte is read (the
  processor has then finished 20 timed operations since the trigger), the 16 bytes after
  "PING destination = " are the contents of \<open>g_region1Dst\<close> and the 16 bytes after
  "PONG destination = " the reverse of the contents of \<open>g_region2Dst\<close>.

  The theorem also fixes the two blocks in every other run: the bytes after
  "PING destination = " are those of \<open>g_region1Dst\<close> at the indices 0 to 15, each as
  the region holds it at the moment the loop reads it, and the bytes after
  "PONG destination = " those of \<open>g_region2Dst\<close> at the indices 15 down to 0, likewise.
\<close>

theorem main_console_output:
  "main fuel result env = IdleLoop s \<Longrightarrow>
     uart s =
       map byte_of CLEAR_SCREEN @ map byte_of BANNER_BLOCK @
       map byte_of ''PING source = '' @ map byte_of ''PSoC4_HVMS-DMADC'' @ map byte_of CRLF @
       map byte_of ''PING destination = '' @ ping_destination_read env @ map byte_of CRLF @
       map byte_of ''PONG source = '' @ rev (map byte_of ''PSoC4_HVMS-DMADC'') @ map byte_of CRLF @
       map byte_of ''PONG destination = '' @ pong_destination_read env @ map byte_of CRLF @
       map byte_of (''- DMA transfer is completed. '' @ CRLF) \<and>
     length (ping_destination_read env) = 16 \<and> length (pong_destination_read env) = 16 \<and>
     (channel (transfer_at env 20) = Completed \<longrightarrow>
        ping_destination_read env = mem (hw s) g_region1Dst \<and>
        pong_destination_read env = rev (mem (hw s) g_region2Dst)) \<and>
     final_line (uart s) = map byte_of ''- DMA transfer is completed. ''"
proof -
  assume run: "main fuel result env = IdleLoop s"
  note rd = main_reads [OF run]
  have u: "uart s =
       map byte_of CLEAR_SCREEN @ map byte_of BANNER_BLOCK @
       map byte_of ''PING source = '' @ map byte_of ''PSoC4_HVMS-DMADC'' @ map byte_of CRLF @
       map byte_of ''PING destination = '' @ ping_destination_read env @ map byte_of CRLF @
       map byte_of ''PONG source = '' @ rev (map byte_of ''PSoC4_HVMS-DMADC'') @ map byte_of CRLF @
       map byte_of ''PONG destination = '' @ pong_destination_read env @ map byte_of CRLF @
       map byte_of (''- DMA transfer is completed. '' @ CRLF)"
    using main_output(1) [OF run] by (simp only: rd(1,2) BANNER_def map_append append_assoc)
  have len: "length (ping_destination_read env) = 16" "length (pong_destination_read env) = 16"
    by (simp_all add: ping_destination_read_def pong_destination_read_def)
  have settled: "channel (transfer_at env 20) = Completed \<longrightarrow>
        ping_destination_read env = mem (hw s) g_region1Dst \<and>
        pong_destination_read env = rev (mem (hw s) g_region2Dst)"
    using destination_reads_settled [of env] unfolding rd(3) by blast
  from u len settled main_output(2) [OF run] show ?thesis by (intro conjI)
qed

theorem main_console_output_witness:
  "main 1 CY_RSLT_SUCCESS [0, 0, 0, 0, 5, 40] =
     IdleLoop (report (tick (triggered_state [0, 0, 0, 0, 5, 40]))) \<and>
   channel (transfer_at [0, 0, 0, 0, 5, 40] 20) = Completed \<and>
   uart (report (tick (triggered_state [0, 0, 0, 0, 5, 40]))) =
     map byte_of CLEAR_SCREEN @ map byte_of BANNER_BLOCK @
     map byte_of ''PING source = '' @ map byte_of ''PSoC4_HVMS-DMADC'' @ map byte_of CRLF @
     map byte_of ''PING destination = '' @ map byte_of ''PSoC4_HVMS-DMADC'' @ map byte_of CRLF @
     map byte_of ''PONG source = '' @ map byte_of ''CDAMD-SMVH_4CoSP'' @ map byte_of CRLF @
     map byte_of ''PONG destination = '' @ map byte_of ''CDAMD-SMVH_4CoSP'' @ map byte_of CRLF @
     map byte_of (''- DMA transfer is completed. '' @ CRLF) \<and>
   mem (hw (report (tick (triggered_state [0, 0, 0, 0, 5, 40])))) g_region1Dst =
     map byte_of ''PSoC4_HVMS-DMADC'' \<and>
   mem (hw (report (tick (triggered_state [0, 0, 0, 0, 5, 40])))) g_region2Dst =
     map byte_of ''PSoC4_HVMS-DMADC'' \<and>
   final_line (uart (report (tick (triggered_state [0, 0, 0, 0, 5, 40])))) =
     map byte_of ''- DMA transfer is completed. ''"
proof -
  note run = sample_run(2)
  have fin: "channel (transfer_at [0, 0, 0, 0, 5, 40] 20) = Completed"
    by (simp add: sample_clock engine_34)
  have "hw (report (tick (triggered_state [0, 0, 0, 0, 5, 40]))) =
      elapse 34 (Cy_TrigMux_SwTrigger armed_hardware)"
    using main_reads(3) [OF run] by (simp add: sample_clock)
  then have m: "mem (hw (report (tick (triggered_state [0, 0, 0, 0, 5, 40])))) g_region1Dst =
      map byte_of ''PSoC4_HVMS-DMADC''"
    "mem (hw (report (tick (triggered_state [0, 0, 0, 0, 5, 40])))) g_region2Dst =
      map byte_of ''PSoC4_HVMS-DMADC''"
    by (simp_all only: engine_34)
  have r: "rev (map byte_of ''PSoC4_HVMS-DMADC'') = map byte_of ''CDAMD-SMVH_4CoSP''"
    by simp
  note out = main_console_output [OF run]
  from out fin have rd: "ping_destination_read [0, 0, 0, 0, 5, 40] =
      map byte_of ''PSoC4_HVMS-DMADC''"
    "pong_destination_read [0, 0, 0, 0, 5, 40] = map byte_of ''CDAMD-SMVH_4CoSP''"
    by (simp_all only: m r)
  from out [THEN conjunct1]
  have u: "uart (report (tick (triggered_state [0, 0, 0, 0, 5, 40]))) =
     map byte_of CLEAR_SCREEN @ map byte_of BANNER_BLOCK @
     map byte_of ''PING source = '' @ map byte_of ''PSoC4_HVMS-DMADC'' @ map byte_of CRLF @
     map byte_of ''PING destination = '' @ map byte_of ''PSoC4_HVMS-DMADC'' @ map byte_of CRLF @
     map byte_of ''PONG source = '' @ map byte_of ''CDAMD-SMVH_4CoSP'' @ map byte_of CRLF @
     map byte_of ''PONG destination = '' @ map byte_of ''CDAMD-SMVH_4CoSP'' @ map byte_of CRLF @
     map byte_of (''- DMA transfer is completed. '' @ CRLF)"
    by (simp only: rd r)
  from out have f: "final_line (uart (report (tick (triggered_state [0, 0, 0, 0, 5, 40])))) =
     map byte_of ''- DMA transfer is completed. ''"
    by (elim conjE)
  from run fin u m f show ?thesis by (intro conjI)
qed

text \<open>
  C3. Once the completion flag of pong, the last descriptor of the chain, reads Done,
  each destination region equals its source region in all its 16 bytes. This holds of
  the controller any number of steps after the trigger of \<open>main\<close>.
\<close>

theorem copy_complete_when_pong_done:
  "Cy_DMAC_Descriptor_GetResponse CY_DMAC_DESCRIPTOR_PONG (transfer_after env n) = Done \<Longrightarrow>
     mem (transfer_after env n) g_region1Dst = mem (transfer_after env n) g_region1Src \<and>
     mem (transfer_after env n) g_region2Dst = mem (transfer_after env n) g_region2Src \<and>
     length (mem (transfer_after env n) g_region1Dst) = 16 \<and>
     length (mem (transfer_after env n) g_region2Dst) = 16"
proof -
  assume "Cy_DMAC_Descriptor_GetResponse CY_DMAC_DESCRIPTOR_PONG (transfer_after env n) = Done"
  then have d: "response (pong (transfer_after env n)) = Done"
    by (simp add: Cy_DMAC_Descriptor_GetResponse_def descr_def)
  have inv: "chain_inv (transfer_after env n)" by (rule chain_inv_transfer_after)
  from chain_inv_pong_done [OF inv d] inv show ?thesis
    by (simp add: chain_inv_def sized_def)
qed

theorem copy_complete_when_pong_done_witness:
  "Cy_DMAC_Descriptor_GetResponse CY_DMAC_DESCRIPTOR_PONG (transfer_after [] 34) = Done \<and>
   mem (transfer_after [] 34) g_region1Dst = map byte_of ''PSoC4_HVMS-DMADC'' \<and>
   mem (transfer_after [] 34) g_region1Src = map byte_of ''PSoC4_HVMS-DMADC'' \<and>
   mem (transfer_after [] 34) g_region2Dst = map byte_of ''PSoC4_HVMS-DMADC'' \<and>
   mem (transfer_after [] 34) g_region2Src = map byte_of ''PSoC4_HVMS-DMADC''"
proof -
  have d: "Cy_DMAC_Descriptor_GetResponse CY_DMAC_DESCRIPTOR_PONG (transfer_after [] 34) = Done"
    by (simp add: Cy_DMAC_Descriptor_GetResponse_def descr_def transfer_after_eq engine_34)
  have s: "mem (transfer_after [] 34) g_region1Src = map byte_of ''PSoC4_HVMS-DMADC''"
    "mem (transfer_after [] 34) g_region2Src = map byte_of ''PSoC4_HVMS-DMADC''"
    by (simp_all only: transfer_after_eq engine_34)
  from copy_complete_when_pong_done [OF d] d s show ?thesis by simp
qed


text \<open>
  C5. Before the trigger both destination regions hold 16 zero bytes: in the initial
  state, after the configuration of the channel, after the banner, and however many
  controller steps elapse before the trigger.
\<close>

theorem destinations_zero_before_trigger:
  "mem (hw (reset_state env)) g_region1Dst = replicate 16 0 \<and>
   mem (hw (reset_state env)) g_region2Dst = replicate 16 0 \<and>
   mem (hw (configure (reset_state env))) g_region1Dst = replicate 16 0 \<and>
   mem (hw (configure (reset_state env))) g_region2Dst = replicate 16 0 \<and>
   mem (hw (banner (configure (reset_state env)))) g_region1Dst = replicate 16 0 \<and>
   mem (hw (banner (configure (reset_state env)))) g_region2Dst = replicate 16 0 \<and>
   mem (elapse n (hw (configure (reset_state env)))) g_region1Dst = replicate 16 0 \<and>
   mem (elapse n (hw (configure (reset_state env)))) g_region2Dst = replicate 16 0 \<and>
   channel (hw (banner (configure (reset_state env)))) = Enabled"
proof -
  have z: "initial_memory g_region1Dst = replicate 16 0"
    "initial_memory g_region2Dst = replicate 16 0"
    by code_simp+
  have a: "mem armed_hardware = initial_memory" "channel armed_hardware = Enabled"
    by (simp_all add: armed_hardware_def)
  show ?thesis
    by (simp add: startup_fields hw_configure elapse_quiescent quiescent_armed a z)
       (simp add: reset_state_def reset_hardware_def z)
qed

text \<open>
  C6. The source regions are never written: in every run, whatever the result of
  \<open>cybsp_init\<close>, the schedule of the controller and the number of polls followed,
  both source regions hold at the end what they held at the start.
\<close>

theorem sources_never_mutated:
  "mem (hw (final_state (main fuel result env))) g_region1Src =
     mem (hw (reset_state env)) g_region1Src \<and>
   mem (hw (final_state (main fuel result env))) g_region2Src =
     mem (hw (reset_state env)) g_region2Src"
proof (cases "result = CY_RSLT_SUCCESS")
  case True
  from main_final_ready [OF True] show ?thesis
    by (simp add: ready_def reset_state_def reset_hardware_def)
next
  case False
  then show ?thesis by (simp add: main_def CY_ASSERT_def)
qed

text \<open>
  C7. The chain runs in order. In every state of the controller after the trigger:
  if pong's completion flag reads Done then so does ping's; while the channel executes
  pong, ping is Done and its copy is complete; while it executes ping, both flags read
  Pending.
\<close>

theorem pong_never_done_before_ping:
  "(response (pong (transfer_after env n)) = Done \<longrightarrow>
      response (ping (transfer_after env n)) = Done) \<and>
   (channel (transfer_after env n) = Transferring CY_DMAC_DESCRIPTOR_PONG k \<longrightarrow>
      response (ping (transfer_after env n)) = Done \<and>
      mem (transfer_after env n) g_region1Dst = mem (transfer_after env n) g_region1Src) \<and>
   (channel (transfer_after env n) = Transferring CY_DMAC_DESCRIPTOR_PING k \<longrightarrow>
      response (ping (transfer_after env n)) = Pending \<and>
      response (pong (transfer_after env n)) = Pending)"
proof -
  have inv: "chain_inv (transfer_after env n)" by (rule chain_inv_transfer_after)
  have "response (pong (transfer_after env n)) = Done \<longrightarrow>
      response (ping (transfer_after env n)) = Done"
    using chain_inv_pong_done [OF inv] inv by (auto simp: chain_inv_def)
  moreover have "channel (transfer_after env n) = Transferring CY_DMAC_DESCRIPTOR_PONG k \<longrightarrow>
      response (ping (transfer_after env n)) = Done \<and>
      mem (transfer_after env n) g_region1Dst = mem (transfer_after env n) g_region1Src"
    using inv by (auto simp: chain_inv_def)
  moreover have "channel (transfer_after env n) = Transferring CY_DMAC_DESCRIPTOR_PING k \<longrightarrow>
      response (ping (transfer_after env n)) = Pending \<and>
      response (pong (transfer_after env n)) = Pending"
    using inv by (auto simp: chain_inv_def)
  ultimately show ?thesis by blast
qed

theorem pong_never_done_before_ping_witness:
  "response (pong (transfer_after [] 34)) = Done \<and>
   response (ping (transfer_after [] 34)) = Done \<and>
   channel (transfer_after [] 20) = Transferring CY_DMAC_DESCRIPTOR_PONG 3 \<and>
   response (ping (transfer_after [] 20)) = Done \<and>
   mem (transfer_after [] 20) g_region1Dst = mem (transfer_after [] 20) g_region1Src \<and>
   channel (transfer_after [] 5) = Transferring CY_DMAC_DESCRIPTOR_PING 5 \<and>
   response (ping (transfer_after [] 5)) = Pending \<and>
   response (pong (transfer_after [] 5)) = Pending"
proof -
  have a: "response (pong (transfer_after [] 34)) = Done"
    by (simp add: transfer_after_eq engine_34)
  have b: "channel (transfer_after [] 20) = Transferring CY_DMAC_DESCRIPTOR_PONG 3"
    using snapshot_20 by (simp add: transfer_after_eq snapshot_def)
  have c: "channel (transfer_after [] 5) = Transferring CY_DMAC_DESCRIPTOR_PING 5"
    using snapshot_5 by (simp add: transfer_after_eq snapshot_def)
  from pong_never_done_before_ping [of "[]" 34 0] a
    pong_never_done_before_ping [of "[]" 20 3] b
    pong_never_done_before_ping [of "[]" 5 5] c
  show ?thesis by blast
qed

text \<open>
  C8. When \<open>cybsp_init\<close> does not return success, \<open>main\<close> halts in the assertion of
  line 105, in its initial state: nothing has been sent to the console. \<open>main\<close> has no
  outcome in which it returns.
\<close>

theorem init_failure_halts_silently:
  "result \<noteq> CY_RSLT_SUCCESS \<Longrightarrow>
     main fuel result env = AssertHalt (reset_state env) \<and> uart (reset_state env) = []"
  by (simp add: main_def CY_ASSERT_def reset_state_def)

theorem init_failure_halts_silently_witness:
  "(1 :: u32) \<noteq> CY_RSLT_SUCCESS \<and>
   main 1 1 [0, 0, 0, 0, 5, 40] = AssertHalt (reset_state [0, 0, 0, 0, 5, 40]) \<and>
   uart (reset_state [0, 0, 0, 0, 5, 40]) = []"
proof -
  have h: "(1 :: u32) \<noteq> CY_RSLT_SUCCESS" by (simp add: CY_RSLT_SUCCESS_def)
  from init_failure_halts_silently [OF h] h show ?thesis by simp
qed

text \<open>
  C9. A PONG loop started at index 15 runs its body at the indices 15, 14, ..., 0,
  once each and in this order, and then stops: after the body has run at index 0 the
  decrement wraps to 4294967295, where the guard \<open>i < 16\<close> fails. Every index the
  body sees is below 16. Both PONG loops of \<open>main\<close> are this loop.
\<close>

theorem pong_loop_sixteen_iterations:
  "for_down body 15 s = fold body (map of_nat (rev [0..<16])) s \<and>
   map unat (map of_nat (rev [0..<16]) :: u32 list) =
     [15, 14, 13, 12, 11, 10, 9, 8, 7, 6, 5, 4, 3, 2, 1, 0] \<and>
   for_down body 0 s = body 0 s \<and>
   (0 :: u32) - 1 = 4294967295 \<and>
   for_down body (0 - 1) s = s \<and>
   print_pong_src st = fold (read_and_put g_region2Src srcdata2) (rev [0..<16]) st \<and>
   print_pong_dst st = fold (read_and_put g_region2Dst dstdata2) (rev [0..<16]) st"
proof -
  have "map unat (map of_nat (rev [0..<16]) :: u32 list) =
     [15, 14, 13, 12, 11, 10, 9, 8, 7, 6, 5, 4, 3, 2, 1, 0]"
    by code_simp
  moreover have "for_down body 0 s = body 0 s"
    by (simp add: for_down.simps [of body 0] for_down.simps [of body "- 1"] DMAC_TRANSFER_SIZE_def)
  moreover have "for_down body (0 - 1) s = s"
    by (simp add: for_down.simps [of body "- 1"] DMAC_TRANSFER_SIZE_def)
  ultimately show ?thesis
    by (simp add: for_down_fold print_pong_src_fold print_pong_dst_fold
        del: upt.simps rev.simps map_map list.map)
qed

text \<open>
  C10. Each source region is an array of 16 bytes that holds the 16 characters of
  "PSoC4_HVMS-DMADC" and no NUL: the literal fills the array, so its terminator is not
  stored (an array of 17 bytes would hold it). Both descriptors transfer 16 bytes, and
  the loops that print a source region send exactly these 16 bytes.
\<close>

theorem source_regions_hold_the_string:
  "initial_memory g_region1Src = map byte_of ''PSoC4_HVMS-DMADC'' \<and>
   initial_memory g_region2Src = map byte_of ''PSoC4_HVMS-DMADC'' \<and>
   length (initial_memory g_region1Src) = unat DMAC_TRANSFER_SIZE \<and>
   length (initial_memory g_region2Src) = unat DMAC_TRANSFER_SIZE \<and>
   unat DMAC_TRANSFER_SIZE = 16 \<and>
   0 \<notin> set (initial_memory g_region1Src) \<and>
   0 \<notin> set (initial_memory g_region2Src) \<and>
   string_init 17 ''PSoC4_HVMS-DMADC'' = map byte_of ''PSoC4_HVMS-DMADC'' @ [0] \<and>
   dataCount (ping (hw (triggered_state env))) = 16 \<and>
   dataCount (pong (hw (triggered_state env))) = 16 \<and>
   uart (print_ping_src (triggered_state env)) =
     uart (triggered_state env) @ map byte_of ''PSoC4_HVMS-DMADC'' \<and>
   uart (print_pong_src (triggered_state env)) =
     uart (triggered_state env) @ rev (map byte_of ''PSoC4_HVMS-DMADC'')"
proof -
  have a: "initial_memory g_region1Src = map byte_of ''PSoC4_HVMS-DMADC'' \<and>
   initial_memory g_region2Src = map byte_of ''PSoC4_HVMS-DMADC'' \<and>
   length (initial_memory g_region1Src) = unat DMAC_TRANSFER_SIZE \<and>
   length (initial_memory g_region2Src) = unat DMAC_TRANSFER_SIZE \<and>
   unat DMAC_TRANSFER_SIZE = 16 \<and>
   0 \<notin> set (initial_memory g_region1Src) \<and>
   0 \<notin> set (initial_memory g_region2Src) \<and>
   string_init 17 ''PSoC4_HVMS-DMADC'' = map byte_of ''PSoC4_HVMS-DMADC'' @ [0]"
    by (simp add: initial_memory_def string_init_def array_init_def DMAC_TRANSFER_SIZE_def
        byte_of_def)
  have r: "ready (triggered_state env)" by (rule ready_triggered)
  then have m: "mem (hw (triggered_state env)) g_region1Src = map byte_of ''PSoC4_HVMS-DMADC''"
    "mem (hw (triggered_state env)) g_region2Src = map byte_of ''PSoC4_HVMS-DMADC''"
    by (simp_all add: ready_def source_bytes)
  have b: "dataCount (ping (hw (triggered_state env))) = 16"
    "dataCount (pong (hw (triggered_state env))) = 16"
    using r by (simp_all add: ready_def configured_def)
  have c: "uart (print_ping_src (triggered_state env)) =
     uart (triggered_state env) @ map byte_of ''PSoC4_HVMS-DMADC''"
    "uart (print_pong_src (triggered_state env)) =
     uart (triggered_state env) @ rev (map byte_of ''PSoC4_HVMS-DMADC'')"
    using print_blocks(1,3) [OF r] by (simp_all only: m)
  from a b c show ?thesis by (intro conjI) (elim conjE; assumption)+
qed

end
